theory Spec2Isabelle
  imports Main
begin

section \<open>Arrays, structured values and errors\<close>

text \<open>
  The module \<^verbatim>\<open>object_stack.py\<close> orchestrates three library services: n-dimensional
  arrays (stacking and indexing), structured values (flattening into leaves and a
  structural descriptor, and back), and the vectorizing map.  An array is a scalar or
  a list of sub-arrays; its shape is read off the nesting, so a dimension of length
  zero has no dimensions below it.  A structured value is a leaf or a node of some
  container kind with ordered children.
\<close>

datatype 'a ndarray = Sc 'a | Ar "'a ndarray list"

datatype kind = PyTuple | PyList | PyDict "string list" | PyNone | PyClass string

datatype 'a pytree = Leaf 'a | Node kind "'a pytree list"

type_synonym treedef = "unit pytree"

type_synonym axes = "int option pytree"

type_synonym 'a obj = "'a ndarray pytree"

text \<open>
  Every exception the module or the library can raise on the paths modelled here.
  \<open>StructureError\<close> is the \<^verbatim>\<open>ValueError\<close> of line 113, with the expected and the
  found descriptor of its message.  \<open>AttributeError\<close> is what the library raises
  when handed \<^verbatim>\<open>None\<close> for a descriptor.  \<open>Raised\<close> is an exception of the user's
  function.
\<close>

datatype error =
    AxesError
  | StructureError treedef treedef
  | StackError
  | IndexError
  | AttributeError
  | VmapError
  | UnflattenError
  | Raised string

type_synonym 'a func = "'a obj list \<Rightarrow> error + 'a obj"

text \<open>A generator consumed in order: the first element that raises ends it.\<close>

fun collect :: "(error + 'b) list \<Rightarrow> error + 'b list" where
  "collect [] = Inr []"
| "collect (r # rs) =
     (case r of
        Inl e \<Rightarrow> Inl e
      | Inr x \<Rightarrow> (case collect rs of Inl e \<Rightarrow> Inl e | Inr xs \<Rightarrow> Inr (x # xs)))"

subsection \<open>Arrays\<close>

fun items :: "'a ndarray \<Rightarrow> 'a ndarray list" where
  "items (Sc x) = []"
| "items (Ar xs) = xs"

fun shape_of :: "'a ndarray \<Rightarrow> nat list option" where
  "shape_of (Sc x) = Some []"
| "shape_of (Ar []) = Some [0]"
| "shape_of (Ar (y # ys)) =
     (case shape_of y of
        None \<Rightarrow> None
      | Some sh \<Rightarrow>
          if list_all (\<lambda>z. shape_of z = Some sh) ys
          then Some (Suc (length ys) # sh) else None)"

text \<open>
  \<^verbatim>\<open>arg[idx]\<close> for an index tuple of full slices and integers, on the arrays of
  \<^verbatim>\<open>jax.numpy\<close>.  The integers this module builds come from \<^verbatim>\<open>enumerate\<close>, so
  they are naturals.  A position beyond the end of an axis is clamped to the last
  position of that axis; an axis of length zero has no position and raises; so does an
  index into a scalar.
\<close>

datatype index = SliceAll | Idx nat

fun getitem :: "'a ndarray \<Rightarrow> index list \<Rightarrow> error + 'a ndarray" where
  "getitem a [] = Inr a"
| "getitem (Sc x) (i # is) = Inl IndexError"
| "getitem (Ar xs) (Idx n # is) =
     (if xs = [] then Inl IndexError else getitem (xs ! min n (length xs - 1)) is)"
| "getitem (Ar xs) (SliceAll # is) =
     (case collect (map (\<lambda>x. getitem x is) xs) of
        Inl e \<Rightarrow> Inl e
      | Inr ys \<Rightarrow> Inr (Ar ys))"

text \<open>The element at a full multi-index, when there is one.\<close>

fun lookup :: "'a ndarray \<Rightarrow> nat list \<Rightarrow> 'a option" where
  "lookup (Sc x) [] = Some x"
| "lookup (Sc x) (i # is) = None"
| "lookup (Ar xs) [] = None"
| "lookup (Ar xs) (i # is) = (if i < length xs then lookup (xs ! i) is else None)"

text \<open>An axis among \<open>nd\<close> dimensions: a negative one counts from the end.\<close>

definition canonical_axis :: "int \<Rightarrow> nat \<Rightarrow> int" where
  "canonical_axis a nd = (if a < 0 then a + int nd else a)"

text \<open>
  \<^verbatim>\<open>jnp.stack(parts, axis)\<close>: at least one array, all of the shape of the first, the
  axis counted from the end when negative and within the result's dimensions.
\<close>

fun stack_at :: "nat \<Rightarrow> 'a ndarray list \<Rightarrow> 'a ndarray" where
  "stack_at 0 parts = Ar parts"
| "stack_at (Suc k) parts =
     Ar (map (\<lambda>j. stack_at k (map (\<lambda>p. items p ! j) parts))
          [0..<length (items (hd parts))])"

definition jnp_stack :: "'a ndarray list \<Rightarrow> int \<Rightarrow> error + 'a ndarray" where
  "jnp_stack parts axis =
     (case parts of
        [] \<Rightarrow> Inl StackError
      | p # ps \<Rightarrow>
          (case shape_of p of
             None \<Rightarrow> Inl StackError
           | Some sh \<Rightarrow>
               if list_all (\<lambda>q. shape_of q = Some sh) ps then
                 (let ax = canonical_axis axis (length sh + 1)
                  in if 0 \<le> ax \<and> ax < int (length sh + 1)
                     then Inr (stack_at (nat ax) parts)
                     else Inl StackError)
               else Inl StackError))"

subsection \<open>Structured values\<close>

fun tree_leaves :: "'a pytree \<Rightarrow> 'a list" where
  "tree_leaves (Leaf x) = [x]"
| "tree_leaves (Node k cs) = concat (map tree_leaves cs)"

fun tree_structure :: "'a pytree \<Rightarrow> treedef" where
  "tree_structure (Leaf x) = Leaf ()"
| "tree_structure (Node k cs) = Node k (map tree_structure cs)"

fun num_leaves :: "'b pytree \<Rightarrow> nat" where
  "num_leaves (Leaf x) = 1"
| "num_leaves (Node k cs) = sum_list (map num_leaves cs)"

fun children :: "'a pytree \<Rightarrow> 'a pytree list" where
  "children (Leaf x) = []"
| "children (Node k cs) = cs"

fun unflatten_aux :: "treedef \<Rightarrow> 'a list \<Rightarrow> ('a pytree \<times> 'a list) option"
  and unflatten_list :: "treedef list \<Rightarrow> 'a list \<Rightarrow> ('a pytree list \<times> 'a list) option"
  where
  "unflatten_aux (Leaf u) xs = (case xs of [] \<Rightarrow> None | x # r \<Rightarrow> Some (Leaf x, r))"
| "unflatten_aux (Node k ts) xs =
     (case unflatten_list ts xs of
        None \<Rightarrow> None
      | Some (cs, r) \<Rightarrow> Some (Node k cs, r))"
| "unflatten_list [] xs = Some ([], xs)"
| "unflatten_list (t # ts) xs =
     (case unflatten_aux t xs of
        None \<Rightarrow> None
      | Some (c, r) \<Rightarrow>
          (case unflatten_list ts r of
             None \<Rightarrow> None
           | Some (cs, r') \<Rightarrow> Some (c # cs, r')))"

definition tree_unflatten :: "treedef \<Rightarrow> 'a list \<Rightarrow> error + 'a pytree" where
  "tree_unflatten td xs =
     (case unflatten_aux td xs of
        None \<Rightarrow> Inl UnflattenError
      | Some (t, r) \<Rightarrow> if r = [] then Inr t else Inl UnflattenError)"

text \<open>
  \<^verbatim>\<open>flatten_axes(name, treedef, axis_tree)\<close>: the axis tree must be a prefix of the
  value's structure; an axis given at a node's place stands for every leaf below it.
\<close>

fun flatten_axes :: "treedef \<Rightarrow> axes \<Rightarrow> error + int option list"
  and flatten_axes_list :: "treedef list \<Rightarrow> axes list \<Rightarrow> error + int option list"
  where
  "flatten_axes t (Leaf a) = Inr (replicate (num_leaves t) a)"
| "flatten_axes (Leaf u) (Node k as) = Inl AxesError"
| "flatten_axes (Node k' ts) (Node k as) =
     (if k' = k \<and> length ts = length as then flatten_axes_list ts as
      else Inl AxesError)"
| "flatten_axes_list (t # ts) (a # as) =
     (case flatten_axes t a of
        Inl e \<Rightarrow> Inl e
      | Inr l \<Rightarrow>
          (case flatten_axes_list ts as of
             Inl e \<Rightarrow> Inl e
           | Inr ls \<Rightarrow> Inr (l @ ls)))"
| "flatten_axes_list [] [] = Inr []"
| "flatten_axes_list [] (a # as) = Inl AxesError"
| "flatten_axes_list (t # ts) [] = Inl AxesError"

text \<open>\<^verbatim>\<open>zip(*rows)\<close>: the columns, as many as the shortest row has entries.\<close>

definition zip_star :: "'b list list \<Rightarrow> 'b list list" where
  "zip_star rows =
     (case rows of
        [] \<Rightarrow> []
      | r # rs \<Rightarrow>
          map (\<lambda>j. map (\<lambda>row. row ! j) rows)
            [0..<fold min (map length rs) (length r)])"

section \<open>The object stack\<close>

record 'a ObjectStack =
  objects :: "'a obj list"
  stack :: "'a obj option"

text \<open>
  \<^verbatim>\<open>tree_map(lambda *x: jnp.stack(x, axis=0), *objects)\<close>, called only when every
  object has the structure of the first: leaf by leaf, the objects' arrays stacked
  along a new axis 0, re-nested into the structure of the first object.
\<close>

definition tree_map_stack :: "'a obj list \<Rightarrow> error + 'a obj" where
  "tree_map_stack objs =
     (case collect (map (\<lambda>x. jnp_stack x 0) (zip_star (map tree_leaves objs))) of
        Inl e \<Rightarrow> Inl e
      | Inr ls \<Rightarrow> tree_unflatten (tree_structure (hd objs)) ls)"

text \<open>
  The attribute \<^verbatim>\<open>stack\<close> is optional, and its absent value is \<^verbatim>\<open>None\<close>.  A
  structured value that is itself \<^verbatim>\<open>None\<close> (what \<^verbatim>\<open>tree_map\<close> returns for objects
  that are \<^verbatim>\<open>None\<close>) is therefore an absent stacked value to the test of line 89.
\<close>

fun is_none :: "'a pytree \<Rightarrow> bool" where
  "is_none (Node PyNone cs) = True"
| "is_none t = False"

definition optional :: "'a pytree \<Rightarrow> 'a pytree option" where
  "optional t = (if is_none t then None else Some t)"

definition init :: "'a obj list \<Rightarrow> error + 'a ObjectStack" where
  "init objs =
     (if length objs \<noteq> 0 then
        (let spec = map tree_structure objs in
         if count_list spec (spec ! 0) = length spec then
           (case tree_map_stack objs of
              Inl e \<Rightarrow> Inl e
            | Inr st \<Rightarrow> Inr \<lparr>objects = objs, stack = optional st\<rparr>)
         else Inr \<lparr>objects = objs, stack = None\<rparr>)
      else Inr \<lparr>objects = objs, stack = None\<rparr>)"

text \<open>
  What the test \<^verbatim>\<open>spec.count(spec[0]) == len(spec)\<close> of line 33 decides: every
  object has the structural descriptor of the first.
\<close>

definition same_structure :: "'a pytree list \<Rightarrow> bool" where
  "same_structure objs =
     list_all (\<lambda>ob. tree_structure ob = tree_structure (objs ! 0)) objs"

text \<open>
  What \<^verbatim>\<open>jnp.stack\<close> asks of the arrays it is given: there is a first one, and each
  has the shape of the first.
\<close>

definition same_shape :: "'a ndarray list \<Rightarrow> bool" where
  "same_shape parts =
     (case parts of
        [] \<Rightarrow> False
      | p # ps \<Rightarrow> shape_of p \<noteq> None \<and> list_all (\<lambda>q. shape_of q = shape_of p) ps)"

text \<open>The arrays of the objects at leaf position \<open>j\<close>, in object order.\<close>

definition column :: "'a obj list \<Rightarrow> nat \<Rightarrow> 'a ndarray list" where
  "column objs j = map (\<lambda>ob. tree_leaves ob ! j) objs"

definition len :: "'a ObjectStack \<Rightarrow> nat" where
  "len self = length (objects self)"

subsection \<open>The vectorizing map of the library\<close>

text \<open>
  \<^verbatim>\<open>jax.vmap(f, in_axes, out_axes)(*args)\<close> is not code of this module; the definition
  below is its documented meaning.  The axes must be a prefix of the arguments'
  structure; every mapped leaf must have the chosen axis (counted from the end when
  negative) and all of them the same size there; \<open>f\<close> is applied to the slices at
  each position of the batch; the results, of one structure, are stacked leaf by leaf
  along the output axes.  An output leaf declared unmapped must not vary over the
  batch.  A batch of size zero is an error here, since these arrays cannot carry the
  shape of an empty result.
\<close>

definition axis_size :: "'a ndarray \<Rightarrow> int \<Rightarrow> error + nat" where
  "axis_size x a =
     (case shape_of x of
        None \<Rightarrow> Inl VmapError
      | Some sh \<Rightarrow>
          (let k = canonical_axis a (length sh)
           in if 0 \<le> k \<and> k < int (length sh) then Inr (sh ! nat k) else Inl VmapError))"

definition vmap_select :: "nat \<Rightarrow> 'a ndarray \<Rightarrow> int option \<Rightarrow> error + 'a ndarray" where
  "vmap_select i x axis =
     (case axis of
        None \<Rightarrow> Inr x
      | Some a \<Rightarrow>
          getitem x
            (replicate (nat (canonical_axis a (length (the (shape_of x))))) SliceAll @ [Idx i]))"

definition vmap_call ::
  "'a func \<Rightarrow> treedef \<Rightarrow> int option list \<Rightarrow> 'a ndarray list \<Rightarrow> nat \<Rightarrow> error + 'a obj" where
  "vmap_call f in_tree in_axes_flat args_flat i =
     (case collect (map (\<lambda>(x, a). vmap_select i x a) (zip args_flat in_axes_flat)) of
        Inl e \<Rightarrow> Inl e
      | Inr sel \<Rightarrow>
          (case tree_unflatten in_tree sel of
             Inl e \<Rightarrow> Inl e
           | Inr targs \<Rightarrow> f (children targs)))"

definition vmap_out :: "int option \<times> 'a ndarray list \<Rightarrow> error + 'a ndarray" where
  "vmap_out ap =
     (case fst ap of
        None \<Rightarrow>
          (case snd ap of
             [] \<Rightarrow> Inl VmapError
           | p # ps \<Rightarrow> if list_all (\<lambda>q. q = p) ps then Inr p else Inl VmapError)
      | Some k \<Rightarrow> jnp_stack (snd ap) k)"

definition vmap_assemble :: "axes \<Rightarrow> 'a obj list \<Rightarrow> error + 'a obj" where
  "vmap_assemble out_axes results =
     (case results of
        [] \<Rightarrow> Inl VmapError
      | r0 # rs \<Rightarrow>
          if list_all (\<lambda>r. tree_structure r = tree_structure r0) rs then
            (case flatten_axes (tree_structure r0) out_axes of
               Inl e \<Rightarrow> Inl e
             | Inr out_axes_flat \<Rightarrow>
                 (case collect (map vmap_out
                         (zip out_axes_flat (zip_star (map tree_leaves results)))) of
                    Inl e \<Rightarrow> Inl e
                  | Inr leaves \<Rightarrow> tree_unflatten (tree_structure r0) leaves))
          else Inl VmapError)"

definition jax_vmap :: "'a func \<Rightarrow> axes list \<Rightarrow> axes \<Rightarrow> 'a obj list \<Rightarrow> error + 'a obj" where
  "jax_vmap f in_axes out_axes args =
     (let args_flat = tree_leaves (Node PyTuple args);
          in_tree = tree_structure (Node PyTuple args)
      in case flatten_axes in_tree (Node PyTuple in_axes) of
           Inl e \<Rightarrow> Inl e
         | Inr in_axes_flat \<Rightarrow>
      (case collect (map (\<lambda>(x, a). axis_size x (the a))
                      (filter (\<lambda>(x, a). a \<noteq> None) (zip args_flat in_axes_flat))) of
           Inl e \<Rightarrow> Inl e
         | Inr sizes \<Rightarrow>
      (case sizes of
           [] \<Rightarrow> Inl VmapError
         | sz # rest \<Rightarrow>
      if list_all (\<lambda>s. s = sz) rest then
      (case collect (map (vmap_call f in_tree in_axes_flat args_flat) [0..<sz]) of
           Inl e \<Rightarrow> Inl e
         | Inr results \<Rightarrow> vmap_assemble out_axes results)
      else Inl VmapError)))"

subsection \<open>The mapped callable\<close>

text \<open>
  Lines 83 to 86: a tuple or a list of axes is taken as it is, anything else is
  repeated once per positional argument.
\<close>

fun normalize_in_axes :: "axes \<Rightarrow> 'b list \<Rightarrow> axes list" where
  "normalize_in_axes (Node PyTuple cs) args = cs"
| "normalize_in_axes (Node PyList cs) args = cs"
| "normalize_in_axes a args = map (\<lambda>_. a) args"

text \<open>
  \<^verbatim>\<open>(slice(None),) * axis + (n,)\<close>: a tuple repeated a negative number of times is
  empty, which is what \<open>nat\<close> gives.
\<close>

definition index_helper :: "nat \<Rightarrow> 'a ndarray \<Rightarrow> int option \<Rightarrow> error + 'a ndarray" where
  "index_helper n arg axis =
     (case axis of
        None \<Rightarrow> Inr arg
      | Some a \<Rightarrow> getitem arg (replicate (nat a) SliceAll @ [Idx n]))"

definition flatten_func_for_object_vmap ::
  "'a func \<Rightarrow> treedef \<Rightarrow> int option list \<Rightarrow> nat \<Rightarrow> 'a obj \<Rightarrow> 'a ndarray list
     \<Rightarrow> error + ('a ndarray list \<times> treedef)" where
  "flatten_func_for_object_vmap func in_tree in_axes_flat index body args_flat =
     (case collect (map (\<lambda>(arg, ax). index_helper index arg ax)
                     (zip args_flat in_axes_flat)) of
        Inl e \<Rightarrow> Inl e
      | Inr args_indexed \<Rightarrow>
          (case tree_unflatten in_tree args_indexed of
             Inl e \<Rightarrow> Inl e
           | Inr targs \<Rightarrow>
               (case func (body # children targs) of
                  Inl e \<Rightarrow> Inl e
                | Inr ans \<Rightarrow> Inr (tree_leaves ans, tree_structure ans))))"

text \<open>
  The loop of lines 105 to 118, with its three variables: the position \<open>n\<close>, the
  list \<open>results\<close> and \<open>out_tree\<close>.
\<close>

fun object_loop ::
  "'a func \<Rightarrow> treedef \<Rightarrow> int option list \<Rightarrow> 'a ndarray list \<Rightarrow> nat \<Rightarrow> 'a obj list
     \<Rightarrow> 'a ndarray list list \<Rightarrow> treedef option
     \<Rightarrow> error + ('a ndarray list list \<times> treedef option)" where
  "object_loop func in_tree in_axes_flat args_flat n [] results out_tree =
     Inr (results, out_tree)"
| "object_loop func in_tree in_axes_flat args_flat n (body # rest) results out_tree =
     (case flatten_func_for_object_vmap func in_tree in_axes_flat n body args_flat of
        Inl e \<Rightarrow> Inl e
      | Inr (flat, out_tree') \<Rightarrow>
          if out_tree \<noteq> None \<and> Some out_tree' \<noteq> out_tree
          then Inl (StructureError (the out_tree) out_tree')
          else object_loop func in_tree in_axes_flat args_flat (Suc n) rest
                 (results @ [flat]) (Some out_tree'))"

text \<open>Lines 124 and 125: one output leaf from its axis and the objects' values there.\<close>

definition out_leaf :: "int option \<times> 'a ndarray list \<Rightarrow> error + 'a ndarray" where
  "out_leaf ap =
     (case fst ap of
        None \<Rightarrow> (case snd ap of [] \<Rightarrow> Inl IndexError | p # ps \<Rightarrow> Inr p)
      | Some a \<Rightarrow> jnp_stack (snd ap) a)"

definition assemble ::
  "treedef option \<Rightarrow> axes \<Rightarrow> 'a ndarray list list \<Rightarrow> error + 'a obj" where
  "assemble out_tree out_axes results =
     (case out_tree of
        None \<Rightarrow> Inl AttributeError
      | Some t \<Rightarrow>
          (case flatten_axes t out_axes of
             Inl e \<Rightarrow> Inl e
           | Inr out_axes_flat \<Rightarrow>
               (case collect (map out_leaf (zip out_axes_flat (zip_star results))) of
                  Inl e \<Rightarrow> Inl e
                | Inr leaves \<Rightarrow> tree_unflatten t leaves)))"

text \<open>Lines 99 to 126, the part of \<^verbatim>\<open>impl\<close> after the test for the stacked value.\<close>

definition slow_path ::
  "'a obj list \<Rightarrow> 'a func \<Rightarrow> axes list \<Rightarrow> axes \<Rightarrow> 'a obj list \<Rightarrow> error + 'a obj" where
  "slow_path objs func in_axes' out_axes args =
     (let args_flat = tree_leaves (Node PyTuple args);
          in_tree = tree_structure (Node PyTuple args)
      in case flatten_axes in_tree (Node PyTuple in_axes') of
           Inl e \<Rightarrow> Inl e
         | Inr in_axes_flat \<Rightarrow>
             (case object_loop func in_tree in_axes_flat args_flat 0 objs [] None of
                Inl e \<Rightarrow> Inl e
              | Inr (results, out_tree) \<Rightarrow> assemble out_tree out_axes results))"

definition fast_path ::
  "'a obj \<Rightarrow> 'a func \<Rightarrow> axes list \<Rightarrow> axes \<Rightarrow> 'a obj list \<Rightarrow> error + 'a obj" where
  "fast_path st func in_axes' out_axes args =
     jax_vmap func (Leaf (Some 0) # in_axes') out_axes (st # args)"

definition impl ::
  "'a ObjectStack \<Rightarrow> 'a func \<Rightarrow> axes \<Rightarrow> axes \<Rightarrow> 'a obj list \<Rightarrow> error + 'a obj" where
  "impl self func in_axes out_axes args =
     (let in_axes' = normalize_in_axes in_axes args
      in case stack self of
           Some st \<Rightarrow> fast_path st func in_axes' out_axes args
         | None \<Rightarrow> slow_path (objects self) func in_axes' out_axes args)"

section \<open>A worked example\<close>

text \<open>
  Bodies that carry one scalar, the radius, and a body of another structure that
  carries two.  The mapped function adds the radius of the body to every entry of its
  argument.
\<close>

definition body :: "int \<Rightarrow> int obj" where
  "body r = Node (PyClass ''Body'') [Leaf (Sc r)]"

definition ringed :: "int \<Rightarrow> int \<Rightarrow> int obj" where
  "ringed r q = Node (PyClass ''Ringed'') [Leaf (Sc r), Leaf (Sc q)]"

definition radius :: "int obj \<Rightarrow> int" where
  "radius b = (case tree_leaves b of Sc r # rest \<Rightarrow> r | _ \<Rightarrow> 0)"

fun shift :: "int \<Rightarrow> int ndarray \<Rightarrow> int ndarray" where
  "shift r (Sc x) = Sc (x + r)"
| "shift r (Ar xs) = Ar (map (shift r) xs)"

definition offset :: "int func" where
  "offset xs =
     (case xs of
        [b, Leaf t] \<Rightarrow> Inr (Leaf (shift (radius b) t))
      | _ \<Rightarrow> Inl (Raised ''TypeError''))"

text \<open>The same, returning next to it the radius of the body.\<close>

definition offset_and_radius :: "int func" where
  "offset_and_radius xs =
     (case xs of
        [b, Leaf t] \<Rightarrow> Inr (Node PyTuple [Leaf (shift (radius b) t), Leaf (Sc (radius b))])
      | _ \<Rightarrow> Inl (Raised ''TypeError''))"

definition square :: "int ndarray" where
  "square = Ar [Ar [Sc 10, Sc 20], Ar [Sc 30, Sc 40]]"

section \<open>Auxiliary facts\<close>

subsection \<open>Generators and arrays\<close>

lemma collect_map_Inr_id: "collect (map Inr ys) = Inr ys"
  by (induction ys) auto

lemma collect_Inr_D: "collect rs = Inr ys \<Longrightarrow> rs = map Inr ys"
  by (induction rs arbitrary: ys) (auto split: sum.splits)

lemma collect_Inr_iff:
  "collect rs = Inr ys \<longleftrightarrow> rs = map Inr ys"
  using collect_map_Inr_id collect_Inr_D by metis

lemma collect_map_Inr:
  "collect (map f xs) = Inr ys \<longleftrightarrow>
     length ys = length xs \<and> (\<forall>i<length xs. f (xs ! i) = Inr (ys ! i))"
  unfolding collect_Inr_iff by (auto simp: list_eq_iff_nth_eq)

lemma collect_append:
  "collect (rs @ ss) =
     (case collect rs of
        Inl e \<Rightarrow> Inl e
      | Inr xs \<Rightarrow> (case collect ss of Inl e \<Rightarrow> Inl e | Inr ys \<Rightarrow> Inr (xs @ ys)))"
  by (induction rs) (auto split: sum.splits)

lemma shape_of_Ar:
  "shape_of (Ar xs) = Some sh \<longleftrightarrow>
     (xs = [] \<and> sh = [0]) \<or>
     (xs \<noteq> [] \<and> (\<exists>s. sh = length xs # s \<and> (\<forall>x\<in>set xs. shape_of x = Some s)))"
  by (cases xs) (auto simp: list_all_iff split: option.splits)

lemma getitem_axis:
  "shape_of arg = Some sh \<Longrightarrow> k < length sh \<Longrightarrow> n < sh ! k \<Longrightarrow>
   \<exists>r. getitem arg (replicate k SliceAll @ [Idx n]) = Inr r \<and>
       shape_of r = Some (take k sh @ drop (Suc k) sh) \<and>
       (\<forall>pre post. length pre = k \<longrightarrow> lookup r (pre @ post) = lookup arg (pre @ n # post))"
proof (induction k arbitrary: arg sh)
  case 0
  then obtain xs where arg: "arg = Ar xs" by (cases arg) auto
  with 0 obtain s where s: "xs \<noteq> []" "sh = length xs # s" "\<forall>x\<in>set xs. shape_of x = Some s"
    by (auto simp: shape_of_Ar)
  from 0 s have n: "n < length xs" by simp
  then have m: "min n (length xs - Suc 0) = n" by simp
  have "getitem arg (replicate 0 SliceAll @ [Idx n]) = Inr (xs ! n)"
    using s(1) by (simp add: arg m)
  moreover have "shape_of (xs ! n) = Some (take 0 sh @ drop (Suc 0) sh)"
    using s n by simp
  moreover have "lookup (xs ! n) (pre @ post) = lookup arg (pre @ n # post)"
    if "length pre = 0" for pre post
    using that n by (simp add: arg)
  ultimately show ?case by blast
next
  case (Suc k)
  then obtain xs where arg: "arg = Ar xs" by (cases arg) auto
  with Suc.prems obtain s where s: "xs \<noteq> []" "sh = length xs # s"
      "\<forall>x\<in>set xs. shape_of x = Some s"
    by (auto simp: shape_of_Ar)
  let ?g = "\<lambda>x. getitem x (replicate k SliceAll @ [Idx n])"
  let ?t = "take k s @ drop (Suc k) s"
  have each: "\<exists>r. ?g x = Inr r \<and> shape_of r = Some ?t \<and>
       (\<forall>pre post. length pre = k \<longrightarrow> lookup r (pre @ post) = lookup x (pre @ n # post))"
    if "x \<in> set xs" for x
    using Suc.IH [of x s] Suc.prems s that by auto
  define ys where "ys = map (\<lambda>x. projr (?g x)) xs"
  have len: "length ys = length xs" by (simp add: ys_def)
  have nth: "?g (xs ! i) = Inr (ys ! i) \<and> shape_of (ys ! i) = Some ?t \<and>
       (\<forall>pre post. length pre = k \<longrightarrow>
          lookup (ys ! i) (pre @ post) = lookup (xs ! i) (pre @ n # post))"
    if "i < length xs" for i
  proof -
    from each [of "xs ! i"] that obtain r where
      r: "?g (xs ! i) = Inr r" "shape_of r = Some ?t"
         "\<forall>pre post. length pre = k \<longrightarrow> lookup r (pre @ post) = lookup (xs ! i) (pre @ n # post)"
      by auto
    from r(1) that have "ys ! i = r" by (simp add: ys_def)
    with r show ?thesis by simp
  qed
  have ys: "collect (map ?g xs) = Inr ys"
    unfolding collect_map_Inr using len nth by simp
  have "\<forall>y\<in>set ys. shape_of y = Some ?t"
    using nth len by (auto simp: in_set_conv_nth)
  moreover have "ys \<noteq> []" using s(1) len by auto
  ultimately have "shape_of (Ar ys) = Some (length xs # ?t)"
    using len by (simp add: shape_of_Ar)
  then have sh': "shape_of (Ar ys) = Some (take (Suc k) sh @ drop (Suc (Suc k)) sh)"
    using s(2) by simp
  have lk: "lookup (Ar ys) (pre @ post) = lookup arg (pre @ n # post)"
    if "length pre = Suc k" for pre post
  proof -
    from that obtain i pre' where pre: "pre = i # pre'" "length pre' = k"
      by (cases pre) auto
    show ?thesis
    proof (cases "i < length xs")
      case True
      with nth [OF True] pre(2) show ?thesis by (simp add: pre(1) arg len)
    next
      case False
      then show ?thesis by (simp add: pre(1) arg len)
    qed
  qed
  have "getitem arg (replicate (Suc k) SliceAll @ [Idx n]) = Inr (Ar ys)"
    using ys by (simp add: arg)
  with sh' lk show ?case by blast
qed

subsection \<open>The loop over the objects\<close>

lemma object_loop_mismatch:
  assumes "m < length bodies"
    and "\<forall>i\<le>m. flatten_func_for_object_vmap func in_tree axs (k + i) (bodies ! i) args_flat
           = Inr (fl i, tr i)"
    and "\<forall>i<m. tr i = t" and "tr m \<noteq> t"
  shows "object_loop func in_tree axs args_flat k bodies results (Some t)
           = Inl (StructureError t (tr m))"
  using assms
proof (induction bodies arbitrary: k m results fl tr)
  case Nil
  then show ?case by simp
next
  case (Cons b rest)
  have c0: "flatten_func_for_object_vmap func in_tree axs k b args_flat = Inr (fl 0, tr 0)"
    using Cons.prems(2) [rule_format, of 0] by simp
  show ?case
  proof (cases m)
    case 0
    with Cons.prems(4) c0 show ?thesis by simp
  next
    case (Suc m')
    have t0: "tr 0 = t" using Cons.prems(3) Suc by simp
    have step: "flatten_func_for_object_vmap func in_tree axs (Suc k + i) (rest ! i) args_flat
              = Inr (fl (Suc i), tr (Suc i))" if "i \<le> m'" for i
      using Cons.prems(2) [rule_format, of "Suc i"] that Suc by simp
    have "object_loop func in_tree axs args_flat (Suc k) rest (results @ [fl 0]) (Some t)
            = Inl (StructureError t (tr (Suc m')))"
    proof (rule Cons.IH [where fl = "\<lambda>i. fl (Suc i)" and tr = "\<lambda>i. tr (Suc i)" and m = m'])
      show "m' < length rest" using Cons.prems(1) Suc by simp
      show "\<forall>i\<le>m'. flatten_func_for_object_vmap func in_tree axs (Suc k + i) (rest ! i) args_flat
              = Inr (fl (Suc i), tr (Suc i))"
        using step by blast
      show "\<forall>i<m'. tr (Suc i) = t" using Cons.prems(3) Suc by simp
      show "tr (Suc m') \<noteq> t" using Cons.prems(4) Suc by simp
    qed
    with c0 t0 Suc show ?thesis by simp
  qed
qed

lemma object_loop_success:
  assumes "\<forall>i<length bodies.
             flatten_func_for_object_vmap func it axs (k + i) (bodies ! i) af = Inr (fl i, t)"
    and "ot = None \<or> ot = Some t"
  shows "object_loop func it axs af k bodies results ot =
           Inr (results @ map fl [0..<length bodies], if bodies = [] then ot else Some t)"
  using assms
proof (induction bodies arbitrary: k results ot fl)
  case Nil
  show ?case by simp
next
  case (Cons b rest)
  have c0: "flatten_func_for_object_vmap func it axs k b af = Inr (fl 0, t)"
    using Cons.prems(1) [rule_format, of 0] by simp
  have step: "\<forall>i<length rest.
      flatten_func_for_object_vmap func it axs (Suc k + i) (rest ! i) af = Inr (fl (Suc i), t)"
  proof (intro allI impI)
    fix i assume "i < length rest"
    then show "flatten_func_for_object_vmap func it axs (Suc k + i) (rest ! i) af
                 = Inr (fl (Suc i), t)"
      using Cons.prems(1) [rule_format, of "Suc i"] by simp
  qed
  have ih: "object_loop func it axs af (Suc k) rest (results @ [fl 0]) (Some t) =
           Inr ((results @ [fl 0]) @ map (\<lambda>i. fl (Suc i)) [0..<length rest],
                if rest = [] then Some t else Some t)"
    by (rule Cons.IH [OF step]) simp
  have m: "map fl [0..<length (b # rest)] = fl 0 # map (\<lambda>i. fl (Suc i)) [0..<length rest]"
    by (simp add: map_upt_Suc del: upt_Suc)
  have chk: "\<not> (ot \<noteq> None \<and> Some t \<noteq> ot)" using Cons.prems(2) by auto
  show ?case
    unfolding m using c0 chk ih by simp
qed

lemma object_loop_Inr_D:
  assumes "object_loop func it axs af k bodies results ot = Inr (res', ot')"
  shows "length res' = length results + length bodies \<and>
         take (length results) res' = results \<and>
         (\<forall>i<length bodies.
            flatten_func_for_object_vmap func it axs (k + i) (bodies ! i) af
              = Inr (res' ! (length results + i), the ot')) \<and>
         (bodies = [] \<longrightarrow> ot' = ot) \<and>
         (bodies \<noteq> [] \<longrightarrow> ot' \<noteq> None \<and> (ot = None \<or> ot = ot'))"
  using assms
proof (induction bodies arbitrary: k results ot)
  case Nil
  then show ?case by simp
next
  case (Cons b rest)
  from Cons.prems obtain flat t' where
    c0: "flatten_func_for_object_vmap func it axs k b af = Inr (flat, t')"
    and chk: "\<not> (ot \<noteq> None \<and> Some t' \<noteq> ot)"
    and rec: "object_loop func it axs af (Suc k) rest (results @ [flat]) (Some t')
                = Inr (res', ot')"
    by (auto split: sum.splits if_splits)
  note ih = Cons.IH [OF rec]
  from ih have len: "length res' = length results + Suc (length rest)" by simp
  from ih have tk: "take (Suc (length results)) res' = results @ [flat]" by simp
  from ih have ot': "ot' = Some t'" by (cases "rest = []") auto
  have tk0: "take (length results) res' = results"
  proof -
    have "take (length results) (take (Suc (length results)) res') = take (length results) res'"
      by (simp add: min_def)
    then show ?thesis unfolding tk by simp
  qed
  have at: "res' ! length results = flat"
  proof -
    have "take (Suc (length results)) res' ! length results = res' ! length results"
      by simp
    then show ?thesis unfolding tk by simp
  qed
  have calls: "flatten_func_for_object_vmap func it axs (k + i) ((b # rest) ! i) af
              = Inr (res' ! (length results + i), the ot')" if "i < length (b # rest)" for i
  proof (cases i)
    case 0
    then show ?thesis using c0 at ot' by simp
  next
    case (Suc i')
    then have "i' < length rest" using that by simp
    with ih have "flatten_func_for_object_vmap func it axs (Suc k + i') (rest ! i') af
              = Inr (res' ! (length (results @ [flat]) + i'), the ot')"
      by blast
    then show ?thesis using Suc by simp
  qed
  have o: "ot = None \<or> ot = ot'" using chk ot' by auto
  show ?case using len tk0 calls ot' o by simp
qed

subsection \<open>Evaluation and the check of the axes\<close>

lemmas eval_defs = jax_vmap_def vmap_assemble_def vmap_call_def vmap_out_def vmap_select_def axis_size_def
  canonical_axis_def jnp_stack_def tree_unflatten_def zip_star_def offset_def radius_def
  body_def ringed_def square_def init_def tree_map_stack_def slow_path_def assemble_def
  out_leaf_def flatten_func_for_object_vmap_def index_helper_def impl_def fast_path_def
  optional_def offset_and_radius_def same_shape_def column_def same_structure_def

lemma jax_vmap_length_mismatch:
  "length in_axes \<noteq> length args \<Longrightarrow> jax_vmap f in_axes out_axes args = Inl AxesError"
  by (simp add: jax_vmap_def)

lemma slow_path_length_mismatch:
  "length in_axes' \<noteq> length args \<Longrightarrow>
   slow_path objs func in_axes' out_axes args = Inl AxesError"
  by (simp add: slow_path_def)

subsection \<open>Structured values: flattening and its inverse\<close>

lemma num_leaves_structure: "num_leaves (tree_structure t) = num_leaves t"
  by (induction t) (auto simp: comp_def intro: arg_cong [where f = sum_list])

lemma length_tree_leaves: "length (tree_leaves t) = num_leaves t"
  by (induction t) (auto simp: length_concat comp_def intro: arg_cong [where f = sum_list])

lemma unflatten_leaves:
  "unflatten_aux (tree_structure t) (tree_leaves t @ rest) = Some (t, rest)"
proof (induction t arbitrary: rest)
  case (Leaf x)
  show ?case by simp
next
  case (Node k cs)
  have "unflatten_list (map tree_structure cs) (concat (map tree_leaves cs) @ r) = Some (cs, r)"
    for r
    using Node.IH by (induction cs arbitrary: r) auto
  then show ?case by simp
qed

lemma unflatten_list_leaves:
  "unflatten_list (map tree_structure cs) (concat (map tree_leaves cs) @ r) = Some (cs, r)"
  by (induction cs arbitrary: r) (auto simp: unflatten_leaves)

lemma unflatten_sound:
  "unflatten_aux td xs = Some (t, r) \<Longrightarrow> tree_structure t = td \<and> xs = tree_leaves t @ r"
  and unflatten_list_sound:
  "unflatten_list ts xs = Some (cs, r) \<Longrightarrow>
     map tree_structure cs = ts \<and> xs = concat (map tree_leaves cs) @ r"
proof (induction td xs and ts xs arbitrary: t r and cs r
    rule: unflatten_aux_unflatten_list.induct)
  case (1 u xs)
  then show ?case by (auto split: list.splits)
next
  case (2 k ts xs)
  then show ?case by (auto split: option.splits)
next
  case (3 xs)
  then show ?case by simp
next
  case (4 t ts xs)
  from "4.prems" obtain c r1 cs' where
    a: "unflatten_aux t xs = Some (c, r1)" and b: "unflatten_list ts r1 = Some (cs', r)"
    and c: "cs = c # cs'"
    by (auto split: option.splits)
  from "4.IH"(1) [OF a] have a': "tree_structure c = t" "xs = tree_leaves c @ r1" by auto
  from "4.IH"(2) [OF a _ b] have b': "map tree_structure cs' = ts"
      "r1 = concat (map tree_leaves cs') @ r"
    by auto
  show ?case using a' b' c by simp
qed

lemma unflatten_complete:
  "num_leaves td \<le> length (xs :: 'a list) \<Longrightarrow>
   \<exists>t. unflatten_aux td xs = Some (t, drop (num_leaves td) xs)"
proof (induction td arbitrary: xs)
  case (Leaf u)
  then show ?case by (cases xs) auto
next
  case (Node k ts)
  have "sum_list (map num_leaves ts') \<le> length ys \<Longrightarrow> set ts' \<subseteq> set ts \<Longrightarrow>
        \<exists>cs. unflatten_list ts' ys = Some (cs, drop (sum_list (map num_leaves ts')) ys)"
    for ts' and ys :: "'a list"
  proof (induction ts' arbitrary: ys)
    case Nil
    then show ?case by simp
  next
    case (Cons t' ts')
    from Cons.prems have le: "num_leaves t' \<le> length ys" and mem: "t' \<in> set ts" by auto
    from Node.IH [OF mem le] obtain c where
      c: "unflatten_aux t' ys = Some (c, drop (num_leaves t') ys)" by blast
    have "sum_list (map num_leaves ts') \<le> length (drop (num_leaves t') ys)"
      using Cons.prems by simp
    from Cons.IH [OF this] Cons.prems(2) obtain cs where
      "unflatten_list ts' (drop (num_leaves t') ys)
         = Some (cs, drop (sum_list (map num_leaves ts')) (drop (num_leaves t') ys))"
      by auto
    with c show ?case by (simp add: add.commute)
  qed
  from this [of ts xs] Node.prems show ?case by auto
qed

lemma tree_unflatten_iff:
  "tree_unflatten td xs = Inr t \<longleftrightarrow> tree_structure t = td \<and> tree_leaves t = xs"
proof
  assume "tree_unflatten td xs = Inr t"
  then have "unflatten_aux td xs = Some (t, [])"
    by (auto simp: tree_unflatten_def split: option.splits if_splits)
  from unflatten_sound [OF this] show "tree_structure t = td \<and> tree_leaves t = xs" by simp
next
  assume "tree_structure t = td \<and> tree_leaves t = xs"
  then show "tree_unflatten td xs = Inr t"
    using unflatten_leaves [of t "[]"] by (auto simp: tree_unflatten_def)
qed

lemma tree_unflatten_ex:
  "length xs = num_leaves td \<Longrightarrow> \<exists>t. tree_unflatten td xs = Inr t"
  using unflatten_complete [of td xs] by (auto simp: tree_unflatten_def)

lemma tree_unflatten_structure_leaves:
  "tree_unflatten (tree_structure t) (tree_leaves t) = Inr t"
  by (simp add: tree_unflatten_iff)

lemma flatten_axes_length:
  "flatten_axes t a = Inr axs \<Longrightarrow> length axs = num_leaves t"
  and flatten_axes_list_length:
  "flatten_axes_list ts as = Inr axs \<Longrightarrow> length axs = sum_list (map num_leaves ts)"
proof (induction t a and ts as arbitrary: axs and axs rule: flatten_axes_flatten_axes_list.induct)
  case (4 t ts a as)
  from "4.prems" obtain l ls where
    a: "flatten_axes t a = Inr l" and b: "flatten_axes_list ts as = Inr ls" and c: "axs = l @ ls"
    by (auto split: sum.splits)
  from "4.IH"(1) [OF a] "4.IH"(2) [OF a b] c show ?case by simp
qed (auto split: if_splits)

lemma fold_min_const:
  "\<forall>x\<in>set xs. x = n \<Longrightarrow> fold min xs n = (n::nat)"
  by (induction xs) auto

lemma zip_star_same_length:
  assumes "rows \<noteq> []" and "\<forall>r\<in>set rows. length r = n"
  shows "zip_star rows = map (\<lambda>j. map (\<lambda>row. row ! j) rows) [0..<n]"
proof -
  obtain r rs where rows: "rows = r # rs" using assms(1) by (cases rows) auto
  have "fold min (map length rs) (length r) = n"
    using assms(2) rows fold_min_const [of "map length rs" n] by auto
  then show ?thesis by (simp add: zip_star_def rows)
qed

subsection \<open>Construction of the stack\<close>

lemma count_list_all: "count_list xs x = length xs \<longleftrightarrow> (\<forall>y\<in>set xs. y = x)"
proof (induction xs)
  case Nil
  show ?case by simp
next
  case (Cons a xs)
  have "count_list xs x \<le> length xs" by (rule count_le_length)
  with Cons show ?case by auto
qed

lemma collect_Inl_D: "collect rs = Inl e \<Longrightarrow> Inl e \<in> set rs"
  by (induction rs) (auto split: sum.splits)

lemma jnp_stack_error: "jnp_stack parts a = Inl e \<Longrightarrow> e = StackError"
  by (auto simp: jnp_stack_def Let_def split: list.splits option.splits if_splits)

lemma jnp_stack_0: "jnp_stack parts 0 = Inr r \<Longrightarrow> r = Ar parts"
  by (auto simp: jnp_stack_def Let_def canonical_axis_def
        split: list.splits option.splits if_splits)

lemma columns_of_objects:
  assumes "objs \<noteq> []" and "same_structure objs"
  shows "zip_star (map tree_leaves objs) =
           map (\<lambda>j. map (\<lambda>ob. tree_leaves ob ! j) objs) [0..<num_leaves (objs ! 0)]"
proof -
  have "length (tree_leaves ob) = num_leaves (objs ! 0)" if "ob \<in> set objs" for ob
  proof -
    have "tree_structure ob = tree_structure (objs ! 0)"
      using assms(2) that by (simp add: same_structure_def list_all_iff)
    then have "num_leaves (tree_structure ob) = num_leaves (tree_structure (objs ! 0))" by simp
    then show ?thesis by (simp add: num_leaves_structure length_tree_leaves)
  qed
  then have "\<forall>r\<in>set (map tree_leaves objs). length r = num_leaves (objs ! 0)" by auto
  from zip_star_same_length [OF _ this] assms(1) show ?thesis by (simp add: comp_def)
qed

lemma tree_map_stack_Inr:
  assumes "objs \<noteq> []" and "same_structure objs" and "tree_map_stack objs = Inr st"
  shows "tree_structure st = tree_structure (objs ! 0)"
    and "tree_leaves st =
           map (\<lambda>j. Ar (map (\<lambda>ob. tree_leaves ob ! j) objs)) [0..<num_leaves (objs ! 0)]"
proof -
  let ?cols = "map (\<lambda>j. map (\<lambda>ob. tree_leaves ob ! j) objs) [0..<num_leaves (objs ! 0)]"
  from assms(3) obtain ls where
    ls: "collect (map (\<lambda>x. jnp_stack x 0) ?cols) = Inr ls"
    and un: "tree_unflatten (tree_structure (hd objs)) ls = Inr st"
    by (auto simp: tree_map_stack_def columns_of_objects [OF assms(1,2)] split: sum.splits)
  from un have st: "tree_structure st = tree_structure (hd objs)" "tree_leaves st = ls"
    by (auto simp: tree_unflatten_iff)
  show "tree_structure st = tree_structure (objs ! 0)"
    using st(1) assms(1) by (simp add: hd_conv_nth)
  from ls have len: "length ls = num_leaves (objs ! 0)"
    and nth: "\<And>j. j < num_leaves (objs ! 0) \<Longrightarrow> jnp_stack (?cols ! j) 0 = Inr (ls ! j)"
    by (auto simp: collect_map_Inr)
  have "ls ! j = Ar (map (\<lambda>ob. tree_leaves ob ! j) objs)" if "j < num_leaves (objs ! 0)" for j
    using jnp_stack_0 [OF nth [OF that]] that by simp
  then show "tree_leaves st =
           map (\<lambda>j. Ar (map (\<lambda>ob. tree_leaves ob ! j) objs)) [0..<num_leaves (objs ! 0)]"
    using len st(2) by (auto simp: list_eq_iff_nth_eq)
qed

lemma tree_map_stack_Inl:
  assumes "objs \<noteq> []" and "same_structure objs" and "tree_map_stack objs = Inl e"
  shows "e = StackError"
proof -
  let ?cols = "map (\<lambda>j. map (\<lambda>ob. tree_leaves ob ! j) objs) [0..<num_leaves (objs ! 0)]"
  show ?thesis
  proof (cases "collect (map (\<lambda>x. jnp_stack x 0) ?cols)")
    case (Inl e')
    with assms(3) have "e' = e"
      by (simp add: tree_map_stack_def columns_of_objects [OF assms(1,2)])
    with collect_Inl_D [OF Inl] show ?thesis by (auto dest: jnp_stack_error [OF sym])
  next
    case (Inr ls)
    then have "length ls = num_leaves (tree_structure (hd objs))"
      using assms(1) by (simp add: collect_map_Inr num_leaves_structure hd_conv_nth)
    from tree_unflatten_ex [OF this] obtain t where
      "tree_unflatten (tree_structure (hd objs)) ls = Inr t" by blast
    with Inr assms(3) show ?thesis
      by (simp add: tree_map_stack_def columns_of_objects [OF assms(1,2)])
  qed
qed

lemma init_cases:
  "init objs =
     (if objs \<noteq> [] \<and> same_structure objs then
        (case tree_map_stack objs of
           Inl e \<Rightarrow> Inl e
         | Inr st \<Rightarrow> Inr \<lparr>objects = objs, stack = optional st\<rparr>)
      else Inr \<lparr>objects = objs, stack = None\<rparr>)"
proof (cases "objs = []")
  case True
  then show ?thesis by (simp add: init_def)
next
  case False
  then have "map tree_structure objs ! 0 = tree_structure (objs ! 0)"
    by simp
  then have key: "(count_list (map tree_structure objs) (map tree_structure objs ! 0)
                    = length (map tree_structure objs)) = same_structure objs"
    unfolding count_list_all same_structure_def list_all_iff by simp
  show ?thesis
    unfolding init_def Let_def key using False by simp
qed

subsection \<open>The slow path\<close>

lemma call_Inr_D:
  "flatten_func_for_object_vmap func it axs n b af = Inr (flat, t) \<Longrightarrow>
   \<exists>ans. flat = tree_leaves ans \<and> t = tree_structure ans"
  by (auto simp: flatten_func_for_object_vmap_def split: sum.splits)

lemma call_Inr_length:
  "flatten_func_for_object_vmap func it axs n b af = Inr (flat, t) \<Longrightarrow>
   length flat = num_leaves t"
  by (auto dest!: call_Inr_D simp: length_tree_leaves num_leaves_structure)

lemma assemble_Inr_D:
  assumes "assemble (Some t) oa res = Inr r" and "res \<noteq> []"
    and "\<forall>row\<in>set res. length row = num_leaves t"
  shows "\<exists>oaxs. flatten_axes t oa = Inr oaxs \<and> length oaxs = num_leaves t \<and>
           tree_structure r = t \<and> length (tree_leaves r) = num_leaves t \<and>
           (\<forall>j<num_leaves t.
              out_leaf (oaxs ! j, map (\<lambda>row. row ! j) res) = Inr (tree_leaves r ! j))"
proof -
  let ?cols = "map (\<lambda>j. map (\<lambda>row. row ! j) res) [0..<num_leaves t]"
  have zs: "zip_star res = ?cols"
    by (rule zip_star_same_length [OF assms(2,3)])
  from assms(1) obtain oaxs leaves where
    fa: "flatten_axes t oa = Inr oaxs"
    and co: "collect (map out_leaf (zip oaxs ?cols)) = Inr leaves"
    and un: "tree_unflatten t leaves = Inr r"
    by (auto simp: assemble_def zs split: sum.splits)
  have lo: "length oaxs = num_leaves t" by (rule flatten_axes_length [OF fa])
  from un have r: "tree_structure r = t" "tree_leaves r = leaves"
    by (auto simp: tree_unflatten_iff)
  from co have ll: "length leaves = num_leaves t"
    and nth: "\<And>j. j < num_leaves t \<Longrightarrow> out_leaf (zip oaxs ?cols ! j) = Inr (leaves ! j)"
    by (auto simp: collect_map_Inr lo)
  have "out_leaf (oaxs ! j, map (\<lambda>row. row ! j) res) = Inr (tree_leaves r ! j)"
    if "j < num_leaves t" for j
    using nth [OF that] that lo r(2) by simp
  with fa lo r ll show ?thesis by auto
qed

lemma slow_path_Inr_D:
  assumes "slow_path objs func ia oa args = Inr r"
  shows "\<exists>axs res t.
           flatten_axes (tree_structure (Node PyTuple args)) (Node PyTuple ia) = Inr axs \<and>
           objs \<noteq> [] \<and> length res = length objs \<and>
           (\<forall>n<length objs.
              flatten_func_for_object_vmap func (tree_structure (Node PyTuple args)) axs n
                (objs ! n) (tree_leaves (Node PyTuple args)) = Inr (res ! n, t)) \<and>
           assemble (Some t) oa res = Inr r"
proof -
  define it where "it = tree_structure (Node PyTuple args)"
  define af where "af = tree_leaves (Node PyTuple args)"
  from assms obtain axs res ot where
    fa: "flatten_axes it (Node PyTuple ia) = Inr axs"
    and lp: "object_loop func it axs af 0 objs [] None = Inr (res, ot)"
    and asm: "assemble ot oa res = Inr r"
    unfolding slow_path_def Let_def it_def af_def by (auto split: sum.splits)
  from asm have "ot \<noteq> None" by (cases ot) (auto simp: assemble_def)
  then obtain t where t: "ot = Some t" by auto
  note d = object_loop_Inr_D [OF lp]
  from d t have ne: "objs \<noteq> []" by auto
  from d have len: "length res = length objs" by simp
  have calls: "\<forall>n<length objs.
              flatten_func_for_object_vmap func it axs n (objs ! n) af = Inr (res ! n, t)"
    using d t by simp
  show ?thesis
    using fa ne len calls asm t unfolding it_def af_def by blast
qed

lemma slow_path_success:
  assumes "flatten_axes (tree_structure (Node PyTuple args)) (Node PyTuple ia) = Inr axs"
    and "objs \<noteq> []"
    and "\<forall>n<length objs.
           flatten_func_for_object_vmap func (tree_structure (Node PyTuple args)) axs n
             (objs ! n) (tree_leaves (Node PyTuple args)) = Inr (fl n, t)"
  shows "slow_path objs func ia oa args = assemble (Some t) oa (map fl [0..<length objs])"
proof -
  define it where "it = tree_structure (Node PyTuple args)"
  define af where "af = tree_leaves (Node PyTuple args)"
  have c: "\<forall>i<length objs.
             flatten_func_for_object_vmap func it axs (0 + i) (objs ! i) af = Inr (fl i, t)"
    using assms(3) by (simp add: it_def af_def)
  have "object_loop func it axs af 0 objs [] None =
          Inr ([] @ map fl [0..<length objs], if objs = [] then None else Some t)"
    by (rule object_loop_success [OF c]) simp
  then have "object_loop func it axs af 0 objs [] None = Inr (map fl [0..<length objs], Some t)"
    using assms(2) by simp
  then show ?thesis
    using assms(1) unfolding slow_path_def Let_def it_def af_def by simp
qed

subsection \<open>Stacking\<close>




lemma jnp_stack_Inr:
  assumes "parts \<noteq> []" and "\<forall>p\<in>set parts. shape_of p = Some sh"
    and "0 \<le> canonical_axis a (Suc (length sh))"
    and "canonical_axis a (Suc (length sh)) < int (Suc (length sh))"
  shows "jnp_stack parts a = Inr (stack_at (nat (canonical_axis a (Suc (length sh)))) parts)"
proof -
  obtain p ps where parts: "parts = p # ps" using assms(1) by (cases parts) auto
  have "shape_of p = Some sh" "list_all (\<lambda>q. shape_of q = Some sh) ps"
    using assms(2) parts by (auto simp: list_all_iff)
  then show ?thesis
    using assms(3,4) by (simp add: jnp_stack_def parts Let_def)
qed

lemma assemble_success:
  assumes "flatten_axes t oa = Inr oaxs" and "res \<noteq> []"
    and "\<forall>row\<in>set res. length row = num_leaves t"
    and "\<forall>j<num_leaves t. out_leaf (oaxs ! j, map (\<lambda>row. row ! j) res) = Inr (lf j)"
  shows "\<exists>r. assemble (Some t) oa res = Inr r \<and> tree_structure r = t \<and>
             tree_leaves r = map lf [0..<num_leaves t]"
proof -
  let ?cols = "map (\<lambda>j. map (\<lambda>row. row ! j) res) [0..<num_leaves t]"
  have zs: "zip_star res = ?cols"
    by (rule zip_star_same_length [OF assms(2,3)])
  have lo: "length oaxs = num_leaves t" by (rule flatten_axes_length [OF assms(1)])
  have co: "collect (map out_leaf (zip oaxs ?cols)) = Inr (map lf [0..<num_leaves t])"
    unfolding collect_map_Inr using assms(4) lo by simp
  have "length (map lf [0..<num_leaves t]) = num_leaves t" by simp
  from tree_unflatten_ex [OF this] obtain r where
    r: "tree_unflatten t (map lf [0..<num_leaves t]) = Inr r" by blast
  then have "tree_structure r = t" "tree_leaves r = map lf [0..<num_leaves t]"
    by (auto simp: tree_unflatten_iff)
  moreover have "assemble (Some t) oa res = Inr r"
    using assms(1) co r by (simp add: assemble_def zs)
  ultimately show ?thesis by blast
qed

subsection \<open>The worked example on the slow path\<close>

lemma wit_axes_in: "flatten_axes (tree_structure (Node PyTuple [Leaf (Ar [Sc (10::int), Sc 20])]))
           (Node PyTuple (normalize_in_axes (Leaf None) [Leaf (Ar [Sc (10::int), Sc 20])])) = Inr [None]"
  by simp

lemma wit_axes_out: "flatten_axes (Node PyTuple [Leaf (), Leaf ()])
    (Node PyTuple [Leaf (Some 0), Leaf None]) = Inr [Some 0, None]"
  by simp

lemma wit_calls: "\<forall>n<length (objects \<lparr>objects = [body 1, ringed 2 3], stack = None\<rparr>).
           flatten_func_for_object_vmap offset_and_radius (tree_structure (Node PyTuple [Leaf (Ar [Sc (10::int), Sc 20])]))
             [None] n (objects \<lparr>objects = [body 1, ringed 2 3], stack = None\<rparr> ! n) (tree_leaves (Node PyTuple [Leaf (Ar [Sc (10::int), Sc 20])])) = Inr ([shift (radius ([body 1, ringed 2 3] ! n)) (Ar [Sc 10, Sc 20]), Sc (radius ([body 1, ringed 2 3] ! n))], Node PyTuple [Leaf (), Leaf ()])"
    by (simp add: All_less_Suc flatten_func_for_object_vmap_def index_helper_def
          tree_unflatten_def offset_and_radius_def)

lemma wit_stacks: "\<forall>j<num_leaves (Node PyTuple [Leaf (), Leaf ()]). \<forall>a. [Some 0, None] ! j = Some a \<longrightarrow>
           jnp_stack (map (\<lambda>n. [shift (radius ([body 1, ringed 2 3] ! n)) (Ar [Sc 10, Sc 20]), Sc (radius ([body 1, ringed 2 3] ! n))] ! j) [0..<length (objects \<lparr>objects = [body 1, ringed 2 3], stack = None\<rparr>)]) a = Inr (Ar [Ar [Sc (11::int), Sc 21], Ar [Sc 12, Sc 22]])"
    by (simp add: All_less_Suc numeral_2_eq_2 upt_rec jnp_stack_def canonical_axis_def
          radius_def body_def ringed_def)

subsection \<open>When construction returns\<close>

lemma jnp_stack_0_iff:
  "jnp_stack parts 0 = (if same_shape parts then Inr (Ar parts) else Inl StackError)"
proof (cases parts)
  case Nil
  then show ?thesis by (simp add: jnp_stack_def same_shape_def)
next
  case (Cons p ps)
  show ?thesis
  proof (cases "shape_of p")
    case None
    then show ?thesis by (simp add: jnp_stack_def same_shape_def Cons)
  next
    case (Some sh)
    then show ?thesis
      by (simp add: jnp_stack_def same_shape_def Cons canonical_axis_def)
  qed
qed

lemma is_none_structure: "is_none (tree_structure t) = is_none t"
  by (cases t rule: is_none.cases) simp_all

lemma tree_map_stack_iff:
  assumes "objs \<noteq> []" and "same_structure objs"
  shows "(\<exists>st. tree_map_stack objs = Inr st) \<longleftrightarrow>
         (\<forall>j<num_leaves (objs ! 0). same_shape (column objs j))"
proof
  assume "\<exists>st. tree_map_stack objs = Inr st"
  then obtain st where st: "tree_map_stack objs = Inr st" ..
  then obtain ls where
    ls: "collect (map (\<lambda>x. jnp_stack x 0)
           (map (\<lambda>j. map (\<lambda>ob. tree_leaves ob ! j) objs) [0..<num_leaves (objs ! 0)])) = Inr ls"
    by (auto simp: tree_map_stack_def columns_of_objects [OF assms] split: sum.splits)
  show "\<forall>j<num_leaves (objs ! 0). same_shape (column objs j)"
  proof (intro allI impI)
    fix j assume j: "j < num_leaves (objs ! 0)"
    from ls j have "jnp_stack (column objs j) 0 = Inr (ls ! j)"
      by (simp add: collect_map_Inr column_def)
    then show "same_shape (column objs j)"
      by (simp add: jnp_stack_0_iff split: if_splits)
  qed
next
  assume a: "\<forall>j<num_leaves (objs ! 0). same_shape (column objs j)"
  let ?ls = "map (\<lambda>j. Ar (column objs j)) [0..<num_leaves (objs ! 0)]"
  have co: "collect (map (\<lambda>x. jnp_stack x 0)
           (map (\<lambda>j. map (\<lambda>ob. tree_leaves ob ! j) objs) [0..<num_leaves (objs ! 0)])) = Inr ?ls"
    unfolding collect_map_Inr using a by (simp add: jnp_stack_0_iff column_def)
  have "length ?ls = num_leaves (tree_structure (hd objs))"
    using assms(1) by (simp add: num_leaves_structure hd_conv_nth)
  from tree_unflatten_ex [OF this] obtain st where
    "tree_unflatten (tree_structure (hd objs)) ?ls = Inr st" ..
  with co have "tree_map_stack objs = Inr st"
    by (simp add: tree_map_stack_def columns_of_objects [OF assms])
  then show "\<exists>st. tree_map_stack objs = Inr st" ..
qed

lemma example_same_structure:
  "same_structure [body 1, body 2]"
  "\<not> same_structure [body 1, ringed 2 3]"
  "same_structure [body 1, Node (PyClass ''Body'') [Leaf (Ar [Sc (1::int), Sc 2])]]"
  by (simp_all add: same_structure_def body_def ringed_def)

lemma example_same_shape:
  "\<forall>j<num_leaves ([body 1, body 2] ! 0). same_shape (column [body 1, body 2] j)"
  "\<exists>j<num_leaves ([body 1, Node (PyClass ''Body'') [Leaf (Ar [Sc (1::int), Sc 2])]] ! 0).
     \<not> same_shape (column [body 1, Node (PyClass ''Body'') [Leaf (Ar [Sc (1::int), Sc 2])]] j)"
  by (simp_all add: same_shape_def column_def body_def)




subsection \<open>Unmapped arguments and reordered objects\<close>

lemma collect_index_unmapped:
  assumes "list_all (\<lambda>a. a = None) axs" and "length axs = length af"
  shows "collect (map (\<lambda>(arg, ax). index_helper n arg ax) (zip af axs)) = Inr af"
  unfolding collect_map_Inr using assms by (simp add: list_all_length index_helper_def)

lemma call_unmapped:
  assumes "flatten_axes (tree_structure (Node PyTuple args)) axes_tree = Inr axs"
    and "list_all (\<lambda>a. a = None) axs"
  shows "flatten_func_for_object_vmap func (tree_structure (Node PyTuple args)) axs n b
           (tree_leaves (Node PyTuple args)) =
         (case func (b # args) of
            Inl e \<Rightarrow> Inl e
          | Inr ans \<Rightarrow> Inr (tree_leaves ans, tree_structure ans))"
proof -
  let ?T = "Node PyTuple args"
  have "length axs = num_leaves (tree_structure ?T)"
    by (rule flatten_axes_length [OF assms(1)])
  then have len: "length axs = length (tree_leaves ?T)"
    by (simp only: num_leaves_structure length_tree_leaves)
  have c: "collect (map (\<lambda>(arg, ax). index_helper n arg ax) (zip (tree_leaves ?T) axs))
             = Inr (tree_leaves ?T)"
    by (rule collect_index_unmapped [OF assms(2) len])
  have u: "tree_unflatten (tree_structure ?T) (tree_leaves ?T) = Inr ?T"
    by (rule tree_unflatten_structure_leaves)
  show ?thesis
    unfolding flatten_func_for_object_vmap_def c using u by simp
qed

lemma jnp_stack_Inr_D:
  assumes "jnp_stack parts a = Inr x"
  shows "parts \<noteq> [] \<and>
         (\<exists>sh. (\<forall>p\<in>set parts. shape_of p = Some sh) \<and>
               0 \<le> canonical_axis a (Suc (length sh)) \<and>
               canonical_axis a (Suc (length sh)) < int (Suc (length sh)) \<and>
               x = stack_at (nat (canonical_axis a (Suc (length sh)))) parts)"
proof -
  from assms obtain p ps where parts: "parts = p # ps"
    by (cases parts) (auto simp: jnp_stack_def)
  from assms parts obtain sh where sh: "shape_of p = Some sh"
    by (cases "shape_of p") (auto simp: jnp_stack_def)
  from assms parts sh have all: "list_all (\<lambda>q. shape_of q = Some sh) ps"
    by (auto simp: jnp_stack_def split: if_splits)
  from assms parts sh all have
    rng: "0 \<le> canonical_axis a (Suc (length sh)) \<and>
          canonical_axis a (Suc (length sh)) < int (Suc (length sh))"
    and x: "x = stack_at (nat (canonical_axis a (Suc (length sh)))) parts"
    by (auto simp: jnp_stack_def Let_def split: if_splits)
  from sh all parts have "\<forall>p\<in>set parts. shape_of p = Some sh"
    by (auto simp: list_all_iff)
  with parts rng x show ?thesis by blast
qed

lemma jnp_stack_reindex:
  assumes "jnp_stack parts a = Inr x" and "q \<noteq> []" and "\<forall>i\<in>set q. i < length parts"
  shows "\<exists>y. jnp_stack (map (\<lambda>i. parts ! i) q) a = Inr y"
proof -
  from jnp_stack_Inr_D [OF assms(1)] obtain sh where
    sh: "\<forall>p\<in>set parts. shape_of p = Some sh"
    and rng: "0 \<le> canonical_axis a (Suc (length sh))"
             "canonical_axis a (Suc (length sh)) < int (Suc (length sh))"
    by blast
  have ne: "map (\<lambda>i. parts ! i) q \<noteq> []" using assms(2) by simp
  have all: "\<forall>p\<in>set (map (\<lambda>i. parts ! i) q). shape_of p = Some sh"
    using sh assms(3) by auto
  from jnp_stack_Inr [OF ne all rng] show ?thesis by blast
qed


section \<open>The claims\<close>

text \<open>
  Claim C10.  On the slow path an argument leaf with integer axis \<open>a\<close> is indexed by
  \<open>index_helper n arg a\<close>.  For \<open>a \<ge> 0\<close>, on an array that has axis \<open>a\<close> and a
  position \<open>n\<close> there, the result is the slice at position \<open>n\<close> of axis \<open>a\<close>: the
  earlier axes are kept, axis \<open>a\<close> is gone, and the element at a multi-index is the
  argument's element at that multi-index with \<open>n\<close> put in at place \<open>a\<close>.  For
  \<open>a < 0\<close> the index tuple has no leading slices, so the result is \<open>arg[n]\<close>; on an
  array whose axis 0 has a position \<open>n\<close> that is the slice at position \<open>n\<close> of axis
  0, whatever axis the negative number counts from the end.
\<close>

theorem index_helper_axis:
  "(0 \<le> a \<and> shape_of arg = Some sh \<and> nat a < length sh \<and> n < sh ! nat a \<longrightarrow>
      (\<exists>r. index_helper n arg (Some a) = Inr r \<and>
           shape_of r = Some (take (nat a) sh @ drop (Suc (nat a)) sh) \<and>
           (\<forall>pre post. length pre = nat a \<longrightarrow>
              lookup r (pre @ post) = lookup arg (pre @ n # post)))) \<and>
   (a < 0 \<longrightarrow> index_helper n arg (Some a) = getitem arg [Idx n]) \<and>
   (a < 0 \<and> shape_of arg = Some sh \<and> sh \<noteq> [] \<and> n < sh ! 0 \<longrightarrow>
      (\<exists>r. index_helper n arg (Some a) = Inr r \<and>
           shape_of r = Some (tl sh) \<and>
           (\<forall>post. lookup r post = lookup arg (n # post))))"
proof (intro conjI impI)
  assume h: "0 \<le> a \<and> shape_of arg = Some sh \<and> nat a < length sh \<and> n < sh ! nat a"
  then show "\<exists>r. index_helper n arg (Some a) = Inr r \<and>
           shape_of r = Some (take (nat a) sh @ drop (Suc (nat a)) sh) \<and>
           (\<forall>pre post. length pre = nat a \<longrightarrow>
              lookup r (pre @ post) = lookup arg (pre @ n # post))"
    using getitem_axis [of arg sh "nat a" n] by (simp add: index_helper_def)
next
  assume "a < 0"
  then show "index_helper n arg (Some a) = getitem arg [Idx n]"
    by (simp add: index_helper_def)
next
  assume h: "a < 0 \<and> shape_of arg = Some sh \<and> sh \<noteq> [] \<and> n < sh ! 0"
  then have e: "index_helper n arg (Some a) = getitem arg (replicate 0 SliceAll @ [Idx n])"
    by (simp add: index_helper_def)
  from h have "0 < length sh" by simp
  from getitem_axis [OF _ this, of arg n] h obtain r where
    r: "getitem arg (replicate 0 SliceAll @ [Idx n]) = Inr r"
       "shape_of r = Some (take 0 sh @ drop (Suc 0) sh)"
       "\<forall>pre post. length pre = 0 \<longrightarrow> lookup r (pre @ post) = lookup arg (pre @ n # post)"
    by blast
  from r(2) have s: "shape_of r = Some (tl sh)" by (simp add: drop_Suc)
  from r(3) have l: "\<forall>post. lookup r post = lookup arg (n # post)" by simp
  from e r(1) s l show "\<exists>r. index_helper n arg (Some a) = Inr r \<and>
           shape_of r = Some (tl sh) \<and>
           (\<forall>post. lookup r post = lookup arg (n # post))"
    by simp
qed

theorem index_helper_axis_witness:
  "(\<exists>r. index_helper 0 square (Some 1) = Inr r \<and> shape_of r = Some [2] \<and>
        lookup r [1] = Some 30) \<and>
   index_helper 1 square (Some (- 1)) = Inr (Ar [Sc 30, Sc 40]) \<and>
   (\<exists>r. index_helper 1 square (Some (- 1)) = Inr r \<and> shape_of r = Some [2] \<and>
        lookup r [0] = lookup square [1, 0])"
proof -
  have sh: "shape_of square = Some [2, 2]"
    by (simp add: square_def)
  from index_helper_axis [where a = 1 and arg = square and sh = "[2, 2]" and n = 0] sh
  obtain r where r: "index_helper 0 square (Some 1) = Inr r" "shape_of r = Some [2]"
    "\<forall>pre post. length pre = nat 1 \<longrightarrow> lookup r (pre @ post) = lookup square (pre @ 0 # post)"
    by auto
  from r(3) [rule_format, of "[1]" "[]"] have "lookup r [1] = Some 30"
    by (simp add: square_def)
  with r have one: "\<exists>r. index_helper 0 square (Some 1) = Inr r \<and> shape_of r = Some [2] \<and>
        lookup r [1] = Some 30"
    by blast
  have two: "index_helper 1 square (Some (- 1)) = Inr (Ar [Sc 30, Sc 40])"
    using index_helper_axis [where a = "- 1" and arg = square and n = 1]
    by (simp add: square_def)
  have pre: "(- 1 :: int) < 0 \<and> shape_of square = Some [2, 2] \<and> [2, 2] \<noteq> ([] :: nat list) \<and>
      (1 :: nat) < [2, 2] ! 0"
    using sh by simp
  from index_helper_axis [where a = "- 1" and arg = square and sh = "[2, 2]" and n = 1] pre
  have "\<exists>r. index_helper 1 square (Some (- 1)) = Inr r \<and> shape_of r = Some (tl [2, 2]) \<and>
        (\<forall>post. lookup r post = lookup square (1 # post))"
    by blast
  then obtain r' where r': "index_helper 1 square (Some (- 1)) = Inr r'"
    "shape_of r' = Some (tl [2, 2])" "\<forall>post. lookup r' post = lookup square (1 # post)"
    by blast
  from r'(3) have "lookup r' [0] = lookup square [1, 0]" by blast
  with r'(1,2)
  have three: "\<exists>r. index_helper 1 square (Some (- 1)) = Inr r \<and> shape_of r = Some [2] \<and>
        lookup r [0] = lookup square [1, 0]"
    by simp
  from one two three show ?thesis by blast
qed

text \<open>
  Claim C6.  An \<open>in_axes\<close> given as one axis or as the unmapped sentinel is repeated
  once per positional argument.  An \<open>in_axes\<close> given as a tuple or a list whose length
  is not the number of positional arguments makes the call raise the error of the
  axes, on the fast path and on the slow path alike, whatever the function is: the
  function is not evaluated.
\<close>

theorem in_axes_normalized:
  "normalize_in_axes (Leaf a) args = replicate (length args) (Leaf a) \<and>
   ((in_axes = Node PyTuple cs \<or> in_axes = Node PyList cs) \<and> length cs \<noteq> length args \<longrightarrow>
      impl self func in_axes out_axes args = Inl AxesError)"
proof (intro conjI impI)
  show "normalize_in_axes (Leaf a) args = replicate (length args) (Leaf a)"
    by (simp add: map_replicate_const)
next
  assume h: "(in_axes = Node PyTuple cs \<or> in_axes = Node PyList cs) \<and> length cs \<noteq> length args"
  then have n: "normalize_in_axes in_axes args = cs" by auto
  show "impl self func in_axes out_axes args = Inl AxesError"
  proof (cases "stack self")
    case None
    then show ?thesis
      using h n by (simp add: impl_def slow_path_length_mismatch)
  next
    case (Some st)
    then show ?thesis
      using h n by (simp add: impl_def fast_path_def jax_vmap_length_mismatch)
  qed
qed

theorem in_axes_normalized_witness:
  "normalize_in_axes (Leaf None) [Leaf (Sc (5::int)), Leaf (Sc 6)] = [Leaf None, Leaf None] \<and>
   impl \<lparr>objects = [body 1, body 2],
         stack = Some (Node (PyClass ''Body'') [Leaf (Ar [Sc 1, Sc 2])])\<rparr>
      (\<lambda>xs. Inl (Raised ''called'')) (Node PyTuple [Leaf (Some 0), Leaf None]) (Leaf (Some 0))
      [Leaf (Sc 5)] = Inl AxesError \<and>
   impl \<lparr>objects = [body 1, ringed 2 3], stack = None\<rparr>
      (\<lambda>xs. Inl (Raised ''called'')) (Node PyList []) (Leaf (Some 0))
      [Leaf (Sc 5)] = Inl AxesError"
  using in_axes_normalized [where a = None and args = "[Leaf (Sc (5::int)), Leaf (Sc 6)]"]
    in_axes_normalized [where in_axes = "Node PyTuple [Leaf (Some 0), Leaf None]"
      and cs = "[Leaf (Some 0), Leaf None]" and args = "[Leaf (Sc (5::int))]"
      and self = "\<lparr>objects = [body 1, body 2],
         stack = Some (Node (PyClass ''Body'') [Leaf (Ar [Sc 1, Sc 2])])\<rparr>"
      and func = "\<lambda>xs. Inl (Raised ''called'')" and out_axes = "Leaf (Some 0)"]
    in_axes_normalized [where in_axes = "Node PyList []"
      and cs = "[]" and args = "[Leaf (Sc (5::int))]"
      and self = "\<lparr>objects = [body 1, ringed 2 3], stack = None\<rparr>"
      and func = "\<lambda>xs. Inl (Raised ''called'')" and out_axes = "Leaf (Some 0)"]
  by simp

text \<open>
  Claim C3.  On the slow path, let object \<open>n > 0\<close> be the first whose result has a
  descriptor other than that of object 0's result, every evaluation up to it having
  returned.  Then the call raises the structure error that carries the descriptor of
  object 0's result as expected and that of object \<open>n\<close>'s result as found; no value
  is returned, whatever the objects after \<open>n\<close> would do.
\<close>

theorem structure_mismatch_raises:
  assumes "stack self = None"
    and "flatten_axes (tree_structure (Node PyTuple args))
           (Node PyTuple (normalize_in_axes in_axes args)) = Inr axs"
    and "0 < n" and "n < length (objects self)"
    and "\<forall>i\<le>n. flatten_func_for_object_vmap func (tree_structure (Node PyTuple args)) axs i
                  (objects self ! i) (tree_leaves (Node PyTuple args)) = Inr (fl i, tr i)"
    and "\<forall>i<n. tr i = tr 0" and "tr n \<noteq> tr 0"
  shows "impl self func in_axes out_axes args = Inl (StructureError (tr 0) (tr n))"
proof -
  define it where "it = tree_structure (Node PyTuple args)"
  define af where "af = tree_leaves (Node PyTuple args)"
  obtain b rest where objs: "objects self = b # rest"
    using assms(4) by (cases "objects self") auto
  obtain n' where n: "n = Suc n'" using assms(3) by (cases n) auto
  have c0: "flatten_func_for_object_vmap func it axs 0 b af = Inr (fl 0, tr 0)"
    using assms(5) [rule_format, of 0] objs by (simp add: it_def af_def)
  have step: "flatten_func_for_object_vmap func it axs (Suc 0 + i) (rest ! i) af
              = Inr (fl (Suc i), tr (Suc i))" if "i \<le> n'" for i
    using assms(5) [rule_format, of "Suc i"] that n objs by (simp add: it_def af_def)
  have p1: "n' < length rest" using assms(4) objs n by simp
  have p2: "\<forall>i\<le>n'. flatten_func_for_object_vmap func it axs (Suc 0 + i) (rest ! i) af
              = Inr (fl (Suc i), tr (Suc i))"
    using step by simp
  have p3: "\<forall>i<n'. tr (Suc i) = tr 0"
  proof (intro allI impI)
    fix i assume "i < n'"
    then have "Suc i < n" using n by simp
    from assms(6) [rule_format, OF this] show "tr (Suc i) = tr 0" .
  qed
  have p4: "tr (Suc n') \<noteq> tr 0" using assms(7) unfolding n .
  have "object_loop func it axs af (Suc 0) rest ([] @ [fl 0]) (Some (tr 0))
          = Inl (StructureError (tr 0) (tr (Suc n')))"
    by (rule object_loop_mismatch [where fl = "\<lambda>i. fl (Suc i)" and tr = "\<lambda>i. tr (Suc i)"
          and m = n', OF p1 p2 p3 p4])
  then have "object_loop func it axs af 0 (objects self) [] None
          = Inl (StructureError (tr 0) (tr n))"
    using c0 by (simp add: objs n)
  then show ?thesis
    using assms(1,2) by (simp add: impl_def slow_path_def it_def af_def)
qed


theorem structure_mismatch_raises_witness:
  "impl \<lparr>objects = [body 1, ringed 2 3], stack = None\<rparr> (\<lambda>xs. Inr (hd xs)) (Leaf None)
      (Leaf (Some 0)) []
     = Inl (StructureError (Node (PyClass ''Body'') [Leaf ()])
              (Node (PyClass ''Ringed'') [Leaf (), Leaf ()]))"
proof -
  let ?s = "\<lparr>objects = [body 1, ringed 2 3], stack = None\<rparr>"
  let ?f = "\<lambda>xs :: int obj list. (Inr (hd xs) :: error + int obj)"
  let ?fl = "\<lambda>i. tree_leaves ([body 1, ringed 2 3] ! i)"
  let ?tr = "\<lambda>i. tree_structure ([body 1, ringed 2 3] ! i)"
  have z: "stack ?s = None" by simp
  have a: "flatten_axes (tree_structure (Node PyTuple ([] :: int obj list)))
           (Node PyTuple (normalize_in_axes (Leaf None) ([] :: int obj list))) = Inr []"
    by simp
  have n0: "0 < (1::nat)" by simp
  have n1: "1 < length (objects ?s)" by simp
  have c: "\<forall>i\<le>1. flatten_func_for_object_vmap ?f (tree_structure (Node PyTuple [])) [] i
                  (objects ?s ! i) (tree_leaves (Node PyTuple [])) = Inr (?fl i, ?tr i)"
    by (simp add: flatten_func_for_object_vmap_def tree_unflatten_def)
  have d: "\<forall>i<(1::nat). ?tr i = ?tr 0" by simp
  have e: "?tr 1 \<noteq> ?tr 0" by (simp add: body_def ringed_def)
  have "impl ?s ?f (Leaf None) (Leaf (Some 0)) [] = Inl (StructureError (?tr 0) (?tr 1))"
    by (rule structure_mismatch_raises [where fl = ?fl and tr = ?tr, OF z a n0 n1 c d e])
  then show ?thesis by (simp add: body_def ringed_def)
qed

text \<open>
  Claim C7, as the code has it.  A stack built from no objects has no stacked value,
  so a call takes the slow path.  It evaluates the function for no object and always
  raises: the error of the axes when \<open>in_axes\<close> does not fit the arguments, and
  otherwise the error of the descriptor that was never set.  It never returns a
  result.
\<close>

theorem empty_stack_always_raises:
  "init [] = Inr self \<Longrightarrow>
   impl self func in_axes out_axes args =
     (case flatten_axes (tree_structure (Node PyTuple args))
             (Node PyTuple (normalize_in_axes in_axes args)) of
        Inl e \<Rightarrow> Inl e
      | Inr axs \<Rightarrow> Inl AttributeError) \<and>
   impl self func in_axes out_axes args \<noteq> Inr r"
  by (auto simp: init_def impl_def slow_path_def assemble_def split: sum.splits)

theorem empty_stack_always_raises_witness:
  "init [] = Inr \<lparr>objects = [], stack = None\<rparr> \<and>
   impl \<lparr>objects = [], stack = None\<rparr> offset (Leaf None) (Leaf (Some 0)) [Leaf (Sc 5)]
     = Inl AttributeError \<and>
   impl \<lparr>objects = [], stack = None\<rparr> offset (Node PyTuple []) (Leaf (Some 0)) [Leaf (Sc 5)]
     = Inl AxesError"
proof -
  have i: "init [] = Inr \<lparr>objects = ([] :: int obj list), stack = None\<rparr>"
    by (simp add: init_def)
  from empty_stack_always_raises [OF i, where func = offset and in_axes = "Leaf None"
      and out_axes = "Leaf (Some 0)" and args = "[Leaf (Sc 5)]"]
    empty_stack_always_raises [OF i, where func = offset and in_axes = "Node PyTuple []"
      and out_axes = "Leaf (Some 0)" and args = "[Leaf (Sc 5)]"]
  show ?thesis by (simp add: init_def)
qed

text \<open>
  The empty stack called with a function whose result is one scalar, whatever it is
  given: the call raises; it does not return an empty result.
\<close>

theorem empty_stack_raises:
  "init ([] :: int obj list) = Inr \<lparr>objects = [], stack = None\<rparr> \<and>
   impl \<lparr>objects = [], stack = None\<rparr> (\<lambda>xs. Inr (Leaf (Sc (0::int)))) (Leaf None) (Leaf (Some 0)) []
     = Inl AttributeError"
  by (simp add: init_def impl_def slow_path_def assemble_def)

text \<open>
  Claim C4.  When the stacked value is present, a call of the mapped callable is one
  application of the library's vectorizing map to the function, with axis 0 for the
  stacked value, the normalized \<open>in_axes\<close> for the other arguments (the entries of a
  tuple or list as they are, anything else repeated once per argument) and \<open>out_axes\<close>
  for the result, applied to the stacked value and the arguments; that result is
  returned as it is.  The objects themselves are not looked at: with any other list of
  objects in the stack the call returns the same.
\<close>

theorem fast_path_single_vmap:
  assumes "stack self = Some st"
  shows "(in_axes = Node PyTuple cs \<or> in_axes = Node PyList cs \<longrightarrow>
      impl self func in_axes out_axes args =
        jax_vmap func (Leaf (Some 0) # cs) out_axes (st # args)) \<and>
   ((\<forall>cs'. in_axes \<noteq> Node PyTuple cs' \<and> in_axes \<noteq> Node PyList cs') \<longrightarrow>
      impl self func in_axes out_axes args =
        jax_vmap func (Leaf (Some 0) # replicate (length args) in_axes) out_axes (st # args)) \<and>
   impl (self\<lparr>objects := objs'\<rparr>) func in_axes out_axes args =
     impl self func in_axes out_axes args"
proof (intro conjI impI)
  assume "in_axes = Node PyTuple cs \<or> in_axes = Node PyList cs"
  then have "normalize_in_axes in_axes args = cs" by auto
  with assms show "impl self func in_axes out_axes args =
      jax_vmap func (Leaf (Some 0) # cs) out_axes (st # args)"
    by (simp add: impl_def fast_path_def)
next
  assume n: "\<forall>cs'. in_axes \<noteq> Node PyTuple cs' \<and> in_axes \<noteq> Node PyList cs'"
  have "normalize_in_axes in_axes args = replicate (length args) in_axes"
  proof (cases in_axes)
    case (Leaf a)
    then show ?thesis by (simp add: map_replicate_const)
  next
    case (Node k cs')
    with n show ?thesis by (cases k) (simp_all add: map_replicate_const)
  qed
  with assms show "impl self func in_axes out_axes args =
      jax_vmap func (Leaf (Some 0) # replicate (length args) in_axes) out_axes (st # args)"
    by (simp add: impl_def fast_path_def)
next
  show "impl (self\<lparr>objects := objs'\<rparr>) func in_axes out_axes args =
     impl self func in_axes out_axes args"
    using assms by (simp add: impl_def)
qed

theorem fast_path_single_vmap_witness:
  "init [body 1, body 2] =
     Inr \<lparr>objects = [body 1, body 2],
          stack = Some (Node (PyClass ''Body'') [Leaf (Ar [Sc 1, Sc 2])])\<rparr> \<and>
   impl \<lparr>objects = [body 1, body 2],
         stack = Some (Node (PyClass ''Body'') [Leaf (Ar [Sc 1, Sc 2])])\<rparr>
      offset (Node PyTuple [Leaf (Some 0)]) (Leaf (Some 0)) [Leaf (Ar [Sc 10, Sc 20])]
     = Inr (Leaf (Ar [Sc 11, Sc 22])) \<and>
   impl \<lparr>objects = [body 1, body 2],
         stack = Some (Node (PyClass ''Body'') [Leaf (Ar [Sc 1, Sc 2])])\<rparr>
      offset (Leaf None) (Leaf (Some 0)) [Leaf (Ar [Sc 10, Sc 20])]
     = Inr (Leaf (Ar [Ar [Sc 11, Sc 21], Ar [Sc 12, Sc 22]])) \<and>
   impl \<lparr>objects = [],
         stack = Some (Node (PyClass ''Body'') [Leaf (Ar [Sc 1, Sc 2])])\<rparr>
      offset (Leaf None) (Leaf (Some 0)) [Leaf (Ar [Sc 10, Sc 20])]
     = Inr (Leaf (Ar [Ar [Sc 11, Sc 21], Ar [Sc 12, Sc 22]]))"
proof -
  let ?st = "Node (PyClass ''Body'') [Leaf (Ar [Sc (1::int), Sc 2])]"
  let ?s = "\<lparr>objects = [body 1, body 2], stack = Some ?st\<rparr>"
  let ?t = "Leaf (Ar [Sc (10::int), Sc 20])"
  have i: "init [body 1, body 2] = Inr ?s"
    by (simp add: eval_defs)
  have v1: "jax_vmap offset (Leaf (Some 0) # [Leaf (Some 0)]) (Leaf (Some 0)) [?st, ?t]
              = Inr (Leaf (Ar [Sc 11, Sc 22]))"
    by (simp add: eval_defs upt_rec)
  have v2: "jax_vmap offset (Leaf (Some 0) # replicate (length [?t]) (Leaf None))
              (Leaf (Some 0)) [?st, ?t]
              = Inr (Leaf (Ar [Ar [Sc 11, Sc 21], Ar [Sc 12, Sc 22]]))"
    by (simp add: eval_defs upt_rec)
  have s: "stack ?s = Some ?st" by simp
  note t1 = fast_path_single_vmap [OF s, where func = offset
      and in_axes = "Node PyTuple [Leaf (Some 0)]" and cs = "[Leaf (Some 0)]"
      and out_axes = "Leaf (Some 0)" and args = "[?t]" and objs' = "[]"]
  note t2 = fast_path_single_vmap [OF s, where func = offset
      and in_axes = "Leaf None" and cs = "[]"
      and out_axes = "Leaf (Some 0)" and args = "[?t]" and objs' = "[]"]
  have a: "impl ?s offset (Node PyTuple [Leaf (Some 0)]) (Leaf (Some 0)) [?t]
             = Inr (Leaf (Ar [Sc 11, Sc 22]))"
    using t1 v1 by simp
  have b: "impl ?s offset (Leaf None) (Leaf (Some 0)) [?t]
             = Inr (Leaf (Ar [Ar [Sc 11, Sc 21], Ar [Sc 12, Sc 22]]))"
    using t2 v2 by simp
  have c: "impl (?s\<lparr>objects := []\<rparr>) offset (Leaf None) (Leaf (Some 0)) [?t]
             = Inr (Leaf (Ar [Ar [Sc 11, Sc 21], Ar [Sc 12, Sc 22]]))"
    using t2 b by simp
  from i a b c show ?thesis by simp
qed

text \<open>
  Claim C5.  On the slow path, when every object's evaluation returns, with results of
  one descriptor, \<open>out_axes\<close> fits that descriptor, and the objects' values at every
  leaf with an integer axis can be stacked along it, the call returns a value of that
  descriptor; its leaf at a position whose axis is the unmapped sentinel is the first
  object's value there, whatever the other objects' values are (nothing is asked of
  them), and its leaf at a position with axis \<open>a\<close> is the objects' values there, in
  object order, stacked along \<open>a\<close>.
\<close>

theorem slow_path_output:
  assumes "stack self = None" and "objects self \<noteq> []"
    and "flatten_axes (tree_structure (Node PyTuple args))
           (Node PyTuple (normalize_in_axes in_axes args)) = Inr in_axes_flat"
    and "\<forall>n<length (objects self).
           flatten_func_for_object_vmap func (tree_structure (Node PyTuple args)) in_axes_flat n
             (objects self ! n) (tree_leaves (Node PyTuple args)) = Inr (results n, t)"
    and "flatten_axes t out_axes = Inr out_axes_flat"
    and "\<forall>j<num_leaves t. \<forall>a. out_axes_flat ! j = Some a \<longrightarrow>
           jnp_stack (map (\<lambda>n. results n ! j) [0..<length (objects self)]) a = Inr (stacked j)"
  shows "\<exists>r. impl self func in_axes out_axes args = Inr r \<and>
           tree_structure r = t \<and> length (tree_leaves r) = num_leaves t \<and>
           (\<forall>j<num_leaves t.
              (out_axes_flat ! j = None \<longrightarrow> tree_leaves r ! j = results 0 ! j) \<and>
              (\<forall>a. out_axes_flat ! j = Some a \<longrightarrow> tree_leaves r ! j = stacked j))"
proof -
  let ?N = "length (objects self)"
  let ?res = "map results [0..<?N]"
  let ?col = "\<lambda>j. map (\<lambda>row. row ! j) ?res"
  define lf where "lf j = (case out_axes_flat ! j of None \<Rightarrow> results 0 ! j | Some a \<Rightarrow> stacked j)"
    for j
  have sp: "impl self func in_axes out_axes args = assemble (Some t) out_axes ?res"
    using slow_path_success [OF assms(3) assms(2) assms(4)] assms(1) by (simp add: impl_def)
  have rne: "?res \<noteq> []" using assms(2) by simp
  have rows: "\<forall>row\<in>set ?res. length row = num_leaves t"
    using assms(4) by (auto dest: call_Inr_length)
  have chd: "?col j = (results 0 ! j) # map (\<lambda>n. results n ! j) [1..<?N]" for j
    using assms(2) by (simp add: upt_conv_Cons comp_def)
  have cmap: "?col j = map (\<lambda>n. results n ! j) [0..<?N]" for j
    by (simp add: comp_def)
  have ol: "out_leaf (out_axes_flat ! j, ?col j) = Inr (lf j)" if "j < num_leaves t" for j
  proof (cases "out_axes_flat ! j")
    case None
    then show ?thesis
      unfolding out_leaf_def lf_def chd by simp
  next
    case (Some a)
    from assms(6) [rule_format, OF that Some]
    have "jnp_stack (?col j) a = Inr (stacked j)" unfolding cmap .
    then show ?thesis
      unfolding out_leaf_def lf_def using Some by simp
  qed
  then have "\<forall>j<num_leaves t. out_leaf (out_axes_flat ! j, ?col j) = Inr (lf j)" by blast
  from assemble_success [OF assms(5) rne rows this] obtain r where
    r: "assemble (Some t) out_axes ?res = Inr r" "tree_structure r = t"
       "tree_leaves r = map lf [0..<num_leaves t]"
    by blast
  have leaf: "tree_leaves r ! j = lf j" if "j < num_leaves t" for j
    using r(3) that by simp
  have unm: "tree_leaves r ! j = results 0 ! j"
    if "j < num_leaves t" "out_axes_flat ! j = None" for j
    using leaf [OF that(1)] that(2) by (simp add: lf_def)
  have mapd: "tree_leaves r ! j = stacked j"
    if "j < num_leaves t" "out_axes_flat ! j = Some a" for j a
    using leaf [OF that(1)] that(2) by (simp add: lf_def)
  have ll: "length (tree_leaves r) = num_leaves t" using r(3) by simp
  have "impl self func in_axes out_axes args = Inr r \<and>
           tree_structure r = t \<and> length (tree_leaves r) = num_leaves t \<and>
           (\<forall>j<num_leaves t.
              (out_axes_flat ! j = None \<longrightarrow> tree_leaves r ! j = results 0 ! j) \<and>
              (\<forall>a. out_axes_flat ! j = Some a \<longrightarrow> tree_leaves r ! j = stacked j))"
    using sp r(1,2) ll unm mapd by simp
  then show ?thesis by blast
qed

theorem slow_path_output_witness:
  "impl \<lparr>objects = [body 1, ringed 2 3], stack = None\<rparr> offset_and_radius (Leaf None)
      (Node PyTuple [Leaf (Some 0), Leaf None]) [Leaf (Ar [Sc 10, Sc 20])]
     = Inr (Node PyTuple [Leaf (Ar [Ar [Sc 11, Sc 21], Ar [Sc 12, Sc 22]]), Leaf (Sc 1)])"
proof -
  let ?t = "Node PyTuple [Leaf (), Leaf ()]"
  have a1: "stack \<lparr>objects = [body 1, ringed 2 3], stack = None\<rparr> = None" by simp
  have a2: "objects \<lparr>objects = [body 1, ringed 2 3], stack = None\<rparr> \<noteq> []" by simp
  note T = slow_path_output [where stacked = "\<lambda>j. Ar [Ar [Sc 11, Sc 21], Ar [Sc 12, Sc 22]]",
      OF a1 a2 wit_axes_in wit_calls wit_axes_out wit_stacks]
  from T obtain r where rr: "impl \<lparr>objects = [body 1, ringed 2 3], stack = None\<rparr>
      offset_and_radius (Leaf None) (Node PyTuple [Leaf (Some 0), Leaf None])
      [Leaf (Ar [Sc 10, Sc 20])] = Inr r"
    and st: "tree_structure r = ?t"
    and len: "length (tree_leaves r) = num_leaves ?t"
    and lf: "\<forall>j<num_leaves ?t.
        ([Some (0::int), None] ! j = None \<longrightarrow>
           tree_leaves r ! j =
             [shift (radius ([body 1, ringed 2 3] ! 0)) (Ar [Sc 10, Sc 20]),
              Sc (radius ([body 1, ringed 2 3] ! 0))] ! j) \<and>
        (\<forall>a. [Some (0::int), None] ! j = Some a \<longrightarrow>
           tree_leaves r ! j = Ar [Ar [Sc 11, Sc 21], Ar [Sc 12, Sc 22]])"
    by blast
  from lf [rule_format, of 0] have l0: "tree_leaves r ! 0 = Ar [Ar [Sc 11, Sc 21], Ar [Sc 12, Sc 22]]"
    by simp
  from lf [rule_format, of 1] have l1: "tree_leaves r ! 1 = Sc 1"
    by (simp add: radius_def body_def)
  from len have "length (tree_leaves r) = 2" by simp
  then obtain x y where xy: "tree_leaves r = [x, y]"
    by (cases "tree_leaves r"; cases "tl (tree_leaves r)") auto
  with l0 l1 have "tree_leaves r = [Ar [Ar [Sc 11, Sc 21], Ar [Sc 12, Sc 22]], Sc 1]"
    by simp
  with st have "tree_unflatten ?t [Ar [Ar [Sc 11, Sc 21], Ar [Sc 12, Sc 22]], Sc 1] = Inr r"
    by (simp add: tree_unflatten_iff)
  then have "r = Node PyTuple [Leaf (Ar [Ar [Sc 11, Sc 21], Ar [Sc 12, Sc 22]]), Leaf (Sc 1)]"
    by (simp add: tree_unflatten_def)
  with rr show ?thesis by simp
qed

text \<open>
  Claim C2, as the code has it.  For an empty sequence, or one in which some object
  has not the structural shape of the first, construction returns a stack without a
  stacked value.  For a non-empty sequence of one structural shape it raises the error
  of \<^verbatim>\<open>jnp.stack\<close> when at some leaf position the objects' arrays have not all the
  shape of the first; otherwise it returns a stack whose stacked value has the
  structure of one object and, at each leaf position, the array of the objects' leaves
  there, in object order, along a new axis 0, except that for objects that are
  \<^verbatim>\<open>None\<close> this value is \<^verbatim>\<open>None\<close> itself, the absent one.  The objects are stored as
  given.  The stack is a value: no operation of the module returns a changed one.
\<close>

theorem init_stacked_value:
  "(objs = [] \<or> \<not> same_structure objs \<longrightarrow>
      init objs = Inr \<lparr>objects = objs, stack = None\<rparr>) \<and>
   (objs \<noteq> [] \<and> same_structure objs \<and>
    (\<exists>j<num_leaves (objs ! 0). \<not> same_shape (column objs j)) \<longrightarrow>
      init objs = Inl StackError) \<and>
   (objs \<noteq> [] \<and> same_structure objs \<and>
    (\<forall>j<num_leaves (objs ! 0). same_shape (column objs j)) \<longrightarrow>
      (\<exists>st. tree_structure st = tree_structure (objs ! 0) \<and>
            tree_leaves st = map (\<lambda>j. Ar (column objs j)) [0..<num_leaves (objs ! 0)] \<and>
            init objs =
              Inr \<lparr>objects = objs,
                   stack = (if is_none (objs ! 0) then None else Some st)\<rparr>))"
proof (intro conjI impI)
  assume "objs = [] \<or> \<not> same_structure objs"
  then show "init objs = Inr \<lparr>objects = objs, stack = None\<rparr>"
    by (auto simp: init_cases)
next
  assume h: "objs \<noteq> [] \<and> same_structure objs \<and>
    (\<exists>j<num_leaves (objs ! 0). \<not> same_shape (column objs j))"
  then have ne: "objs \<noteq> []" and ss: "same_structure objs" by auto
  from h tree_map_stack_iff [OF ne ss] have "\<not> (\<exists>st. tree_map_stack objs = Inr st)"
    by auto
  then obtain e where e: "tree_map_stack objs = Inl e"
    by (cases "tree_map_stack objs") auto
  from tree_map_stack_Inl [OF ne ss e] e ne ss show "init objs = Inl StackError"
    by (simp add: init_cases)
next
  assume h: "objs \<noteq> [] \<and> same_structure objs \<and>
    (\<forall>j<num_leaves (objs ! 0). same_shape (column objs j))"
  then have ne: "objs \<noteq> []" and ss: "same_structure objs" by auto
  from h tree_map_stack_iff [OF ne ss] obtain st where st: "tree_map_stack objs = Inr st"
    by auto
  note t = tree_map_stack_Inr [OF ne ss st]
  have n: "is_none st = is_none (objs ! 0)"
    using t(1) is_none_structure [of st] is_none_structure [of "objs ! 0"] by simp
  have "init objs = Inr \<lparr>objects = objs, stack = (if is_none (objs ! 0) then None else Some st)\<rparr>"
    using st ne ss n by (simp add: init_cases optional_def)
  with t show "\<exists>st. tree_structure st = tree_structure (objs ! 0) \<and>
            tree_leaves st = map (\<lambda>j. Ar (column objs j)) [0..<num_leaves (objs ! 0)] \<and>
            init objs =
              Inr \<lparr>objects = objs,
                   stack = (if is_none (objs ! 0) then None else Some st)\<rparr>"
    by (auto simp: column_def)
qed

theorem init_stacked_value_witness:
  "init [body 1, ringed 2 3] = Inr \<lparr>objects = [body 1, ringed 2 3], stack = None\<rparr> \<and>
   init [body 1, Node (PyClass ''Body'') [Leaf (Ar [Sc (1::int), Sc 2])]] = Inl StackError \<and>
   init [body 1, body 2] =
     Inr \<lparr>objects = [body 1, body 2],
          stack = Some (Node (PyClass ''Body'') [Leaf (Ar [Sc 1, Sc 2])])\<rparr>"
proof -
  let ?v = "Node (PyClass ''Body'') [Leaf (Ar [Sc (1::int), Sc 2])]"
  have one: "init [body 1, ringed 2 3] = Inr \<lparr>objects = [body 1, ringed 2 3], stack = None\<rparr>"
    using init_stacked_value [of "[body 1, ringed 2 3]"] example_same_structure(2) by blast
  have ne2: "[body 1, ?v] \<noteq> []" by simp
  have two: "init [body 1, ?v] = Inl StackError"
    using init_stacked_value [of "[body 1, ?v]"] ne2 example_same_structure(3) example_same_shape(2)
    by blast
  have ne3: "[body 1, body 2] \<noteq> []" by simp
  from init_stacked_value [of "[body 1, body 2]"] ne3 example_same_structure(1) example_same_shape(1)
  have "\<exists>st. tree_structure st = tree_structure ([body 1, body 2] ! 0) \<and>
            tree_leaves st = map (\<lambda>j. Ar (column [body 1, body 2] j))
                               [0..<num_leaves ([body 1, body 2] ! 0)] \<and>
            init [body 1, body 2] =
              Inr \<lparr>objects = [body 1, body 2],
                   stack = (if is_none ([body 1, body 2] ! 0) then None else Some st)\<rparr>"
    by blast
  then obtain st where st: "tree_structure st = tree_structure ([body 1, body 2] ! 0)"
    "tree_leaves st = map (\<lambda>j. Ar (column [body 1, body 2] j))
                               [0..<num_leaves ([body 1, body 2] ! 0)]"
    "init [body 1, body 2] =
       Inr \<lparr>objects = [body 1, body 2],
            stack = (if is_none ([body 1, body 2] ! 0) then None else Some st)\<rparr>"
    by blast
  from st(1,2) have "tree_unflatten (Node (PyClass ''Body'') [Leaf ()]) [Ar [Sc 1, Sc 2]] = Inr st"
    by (simp add: tree_unflatten_iff body_def column_def)
  then have "st = Node (PyClass ''Body'') [Leaf (Ar [Sc 1, Sc 2])]"
    by (simp add: tree_unflatten_def)
  with st(3) have three: "init [body 1, body 2] =
     Inr \<lparr>objects = [body 1, body 2],
          stack = Some (Node (PyClass ''Body'') [Leaf (Ar [Sc 1, Sc 2])])\<rparr>"
    by (simp add: body_def)
  from one two three show ?thesis by blast
qed

text \<open>
  Two bodies of one structure, the radius of the first a scalar and of the second a
  vector of two entries: the sequence is non-empty and the structures agree, and
  construction raises instead of returning a stack with a stacked value.  And two
  objects that are \<^verbatim>\<open>None\<close>: non-empty, of one structure, and the stack has no
  stacked value.
\<close>

theorem init_shape_mismatch_raises:
  "[Node (PyClass ''Body'') [Leaf (Sc (1::int))],
    Node (PyClass ''Body'') [Leaf (Ar [Sc 1, Sc 2])]] \<noteq> [] \<and>
   same_structure [Node (PyClass ''Body'') [Leaf (Sc (1::int))],
                   Node (PyClass ''Body'') [Leaf (Ar [Sc 1, Sc 2])]] \<and>
   init [Node (PyClass ''Body'') [Leaf (Sc (1::int))],
         Node (PyClass ''Body'') [Leaf (Ar [Sc 1, Sc 2])]] = Inl StackError \<and>
   [Node PyNone [], Node PyNone []] \<noteq> ([] :: int obj list) \<and>
   same_structure [Node PyNone [], Node PyNone [] :: int obj] \<and>
   init [Node PyNone [], Node PyNone [] :: int obj] =
     Inr \<lparr>objects = [Node PyNone [], Node PyNone []], stack = None\<rparr>"
  by (simp add: eval_defs)



text \<open>
  Claim C1, at one input.  Two bodies of one structure, with radius 1 and 2; the
  function adds the radius to its argument; \<open>in_axes\<close> is \<open>-1\<close>, \<open>out_axes\<close> is 0, and
  the argument is the square array with rows \<open>10, 20\<close> and \<open>30, 40\<close>.  The fast path
  gives each body a column of the argument, as the vectorizing map does for an axis
  counted from the end.  The loop of the slow path, run on the same objects and
  arguments, gives each body a row, and so does a call on a stack of two bodies of
  different structure with the same radii.  The two outputs differ.
\<close>

theorem fast_and_slow_path_differ:
  "init [body 1, body 2] =
     Inr \<lparr>objects = [body 1, body 2],
          stack = Some (Node (PyClass ''Body'') [Leaf (Ar [Sc 1, Sc 2])])\<rparr> \<and>
   impl \<lparr>objects = [body 1, body 2],
         stack = Some (Node (PyClass ''Body'') [Leaf (Ar [Sc 1, Sc 2])])\<rparr>
      offset (Leaf (Some (- 1))) (Leaf (Some 0)) [Leaf square]
     = Inr (Leaf (Ar [Ar [Sc 11, Sc 31], Ar [Sc 22, Sc 42]])) \<and>
   slow_path [body 1, body 2] offset (normalize_in_axes (Leaf (Some (- 1))) [Leaf square])
      (Leaf (Some 0)) [Leaf square]
     = Inr (Leaf (Ar [Ar [Sc 11, Sc 21], Ar [Sc 32, Sc 42]])) \<and>
   init [body 1, ringed 2 3] = Inr \<lparr>objects = [body 1, ringed 2 3], stack = None\<rparr> \<and>
   impl \<lparr>objects = [body 1, ringed 2 3], stack = None\<rparr>
      offset (Leaf (Some (- 1))) (Leaf (Some 0)) [Leaf square]
     = Inr (Leaf (Ar [Ar [Sc 11, Sc 21], Ar [Sc 32, Sc 42]]))"
proof -
  have a: "init [body 1, body 2] =
     Inr \<lparr>objects = [body 1, body 2],
          stack = Some (Node (PyClass ''Body'') [Leaf (Ar [Sc 1, Sc 2])])\<rparr>"
    by (simp add: eval_defs)
  have b: "impl \<lparr>objects = [body 1, body 2],
         stack = Some (Node (PyClass ''Body'') [Leaf (Ar [Sc 1, Sc 2])])\<rparr>
      offset (Leaf (Some (- 1))) (Leaf (Some 0)) [Leaf square]
     = Inr (Leaf (Ar [Ar [Sc 11, Sc 31], Ar [Sc 22, Sc 42]]))"
    by (simp add: eval_defs upt_rec)
  have c: "slow_path [body 1, body 2] offset (normalize_in_axes (Leaf (Some (- 1))) [Leaf square])
      (Leaf (Some 0)) [Leaf square]
     = Inr (Leaf (Ar [Ar [Sc 11, Sc 21], Ar [Sc 32, Sc 42]]))"
    by (simp add: eval_defs upt_rec)
  have d: "init [body 1, ringed 2 3] = Inr \<lparr>objects = [body 1, ringed 2 3], stack = None\<rparr>"
    by (simp add: eval_defs)
  have e: "impl \<lparr>objects = [body 1, ringed 2 3], stack = None\<rparr>
      offset (Leaf (Some (- 1))) (Leaf (Some 0)) [Leaf square]
     = Inr (Leaf (Ar [Ar [Sc 11, Sc 21], Ar [Sc 32, Sc 42]]))"
    by (simp add: eval_defs upt_rec)
  from a b c d e show ?thesis by simp
qed

end
